theory Spec2Isabelle
  imports Complex_Main "HOL-Library.Word"
begin

unbundle bit_operations_syntax

section \<open>Values, completions and the state of namespace Debug\<close>

text \<open>
  The embedding follows \<^verbatim>\<open>src/compiler/debug.ts\<close>.  A call either returns or throws;
  a throw carries the message of the \<^verbatim>\<open>Error\<close> object.  The enum values, the line and
  column numbers and the frame counts are integers and are modelled by \<^typ>\<open>int\<close>.  On the
  integers of magnitude below \<open>2\<^sup>5\<^sup>3\<close> this is the arithmetic of the code: there the doubles
  hold every integer, and the conversion to a string writes all decimal digits.  The operands
  of the numeric comparisons are arbitrary numbers and have the type \<open>number\<close> below.
  Strings are \<^typ>\<open>string\<close>; an optional parameter is an \<^typ>\<open>'a option\<close> with \<open>None\<close> for
  \<^verbatim>\<open>undefined\<close>.
\<close>

datatype 'a completion = Return 'a | Throw string

text \<open>Truthiness of an optional string: \<^verbatim>\<open>undefined\<close> and \<^verbatim>\<open>""\<close> are falsy.\<close>

definition truthy :: "string option \<Rightarrow> bool" where
  "truthy m = (case m of None \<Rightarrow> False | Some s \<Rightarrow> s \<noteq> [])"

text \<open>\<^verbatim>\<open>ToString\<close> of an optional string, as string concatenation applies it.\<close>

definition toString_opt :: "string option \<Rightarrow> string" where
  "toString_opt m = (case m of None \<Rightarrow> ''undefined'' | Some s \<Rightarrow> s)"

text \<open>
  \<^verbatim>\<open>Number.prototype.toString\<close> on integers: decimal digits, a minus sign first.  This is
  the text of the code for the integers of magnitude below \<open>2\<^sup>5\<^sup>3\<close>; a larger double prints the
  shortest digits that identify it, in exponent notation from \<open>10\<^sup>2\<^sup>1\<close> on.
\<close>

definition digit_char :: "nat \<Rightarrow> char" where
  "digit_char n = ''0123456789'' ! n"

function string_of_nat :: "nat \<Rightarrow> string" where
  "string_of_nat n =
     (if n < 10 then [digit_char n] else string_of_nat (n div 10) @ [digit_char (n mod 10)])"
  by pat_completeness auto
termination
  by (relation "measure id") auto

definition number_toString :: "int \<Rightarrow> string" where
  "number_toString n =
     (if n < 0 then CHR ''-'' # string_of_nat (nat (- n)) else string_of_nat (nat n))"

text \<open>
  A JavaScript number: NaN, an infinity or a finite value.  A finite double is a real number;
  the two zeros compare equal and print alike, so one value stands for both.
\<close>

datatype number = NaN | PosInfinity | NegInfinity | Finite real

text \<open>
  \<^verbatim>\<open>Number::Number_lessThan\<close> of the language: \<open>None\<close> is its result \<^verbatim>\<open>undefined\<close>, for a NaN
  operand.  The operators \<^verbatim>\<open><\<close>, \<^verbatim>\<open>>\<close> and \<^verbatim>\<open>>=\<close> are defined from it: \<^verbatim>\<open>a < b\<close> and
  \<^verbatim>\<open>a > b\<close> hold when \<^verbatim>\<open>a\<close> is less than \<^verbatim>\<open>b\<close>, respectively \<^verbatim>\<open>b\<close> less than \<^verbatim>\<open>a\<close>, and
  \<^verbatim>\<open>a >= b\<close> holds when \<^verbatim>\<open>a\<close> less than \<^verbatim>\<open>b\<close> is false, not when it is undefined.
\<close>

fun Number_lessThan :: "number \<Rightarrow> number \<Rightarrow> bool option" where
  "Number_lessThan NaN y = None"
| "Number_lessThan x NaN = None"
| "Number_lessThan (Finite x) (Finite y) = Some (x < y)"
| "Number_lessThan PosInfinity y = Some False"
| "Number_lessThan x PosInfinity = Some True"
| "Number_lessThan x NegInfinity = Some False"
| "Number_lessThan NegInfinity y = Some True"

definition less_number :: "number \<Rightarrow> number \<Rightarrow> bool" where
  "less_number a b = (Number_lessThan a b = Some True)"

definition greater_number :: "number \<Rightarrow> number \<Rightarrow> bool" where
  "greater_number a b = (Number_lessThan b a = Some True)"

definition greater_equal_number :: "number \<Rightarrow> number \<Rightarrow> bool" where
  "greater_equal_number a b = (Number_lessThan a b = Some False)"

text \<open>
  \<^verbatim>\<open>Number::toString\<close> of the language, as a template literal applies it.  An integer of
  magnitude below \<open>2\<^sup>5\<^sup>3\<close> prints its decimal digits.  For the other finite values the digits
  are those the engine generates, the parameter \<open>digits\<close>.
\<close>

definition Number_toString :: "(real \<Rightarrow> string) \<Rightarrow> number \<Rightarrow> string" where
  "Number_toString digits x =
     (case x of
        NaN \<Rightarrow> ''NaN''
      | PosInfinity \<Rightarrow> ''Infinity''
      | NegInfinity \<Rightarrow> ''-Infinity''
      | Finite r \<Rightarrow>
          if r = of_int \<lfloor>r\<rfloor> \<and> \<bar>r\<bar> < 2 ^ 53 then number_toString \<lfloor>r\<rfloor> else digits r)"

datatype LogLevel = Off | Error | Warning | Info | Verbose

text \<open>The numeric value of each member of the enum \<^verbatim>\<open>LogLevel\<close>.\<close>

fun level_rank :: "LogLevel \<Rightarrow> nat" where
  "level_rank Off = 0"
| "level_rank Error = 1"
| "level_rank Warning = 2"
| "level_rank Info = 3"
| "level_rank Verbose = 4"

text \<open>
  Modelled from the spec: the enum \<^verbatim>\<open>AssertionLevel\<close> is declared outside the given
  sources.  The spec calls it an ordered enumeration with a threshold named Normal; the
  members and their order are those the module refers to
  (\<^verbatim>\<open>AssertionLevel.None\<close>, \<^verbatim>\<open>AssertionLevel.Normal\<close>).
\<close>

datatype AssertionLevel =
  AssertionLevel_None | AssertionLevel_Normal | AssertionLevel_Aggressive
  | AssertionLevel_VeryAggressive

fun assertion_rank :: "AssertionLevel \<Rightarrow> nat" where
  "assertion_rank AssertionLevel_None = 0"
| "assertion_rank AssertionLevel_Normal = 1"
| "assertion_rank AssertionLevel_Aggressive = 2"
| "assertion_rank AssertionLevel_VeryAggressive = 3"

text \<open>
  The mutable variables of namespace \<^verbatim>\<open>Debug\<close>.  A \<^verbatim>\<open>LoggingHost\<close> is supplied by
  the host program; it is modelled by what it has received, in order, so that
  \<^verbatim>\<open>loggingHost.log(level, s)\<close> appends \<open>(level, s)\<close>.
\<close>

type_synonym LoggingHost = "(LogLevel \<times> string) list"

record world =
  currentAssertionLevel :: AssertionLevel
  currentLogLevel :: LogLevel
  isDebugging :: bool
  loggingHost :: "LoggingHost option"

section \<open>Leveled logger\<close>

definition shouldLog :: "world \<Rightarrow> LogLevel \<Rightarrow> bool" where
  "shouldLog w level = (level_rank (currentLogLevel w) \<le> level_rank level)"

definition logMessage :: "LogLevel \<Rightarrow> string \<Rightarrow> world \<Rightarrow> unit completion \<times> world" where
  "logMessage level s w =
     (case loggingHost w of
        None \<Rightarrow> (Return (), w)
      | Some host \<Rightarrow>
          if shouldLog w level
          then (Return (), w\<lparr>loggingHost := Some (host @ [(level, s)])\<rparr>)
          else (Return (), w))"

definition log_info :: "string \<Rightarrow> world \<Rightarrow> unit completion \<times> world" where
  "log_info s = logMessage Info s"

definition log_error :: "string \<Rightarrow> world \<Rightarrow> unit completion \<times> world" where
  "log_error s = logMessage Error s"

definition log_warn :: "string \<Rightarrow> world \<Rightarrow> unit completion \<times> world" where
  "log_warn s = logMessage Warning s"

definition log_log :: "string \<Rightarrow> world \<Rightarrow> unit completion \<times> world" where
  "log_log s = logMessage Info s"

definition log_trace :: "string \<Rightarrow> world \<Rightarrow> unit completion \<times> world" where
  "log_trace s = logMessage Verbose s"

section \<open>Assertions\<close>

definition shouldAssert :: "world \<Rightarrow> AssertionLevel \<Rightarrow> bool" where
  "shouldAssert w level = (assertion_rank (currentAssertionLevel w) \<ge> assertion_rank level)"

text \<open>
  \<^verbatim>\<open>fail\<close> is the only place that throws.  The stack-crawl mark only trims the
  \<^verbatim>\<open>stack\<close> property of the error and is left out.
\<close>

definition fail :: "string option \<Rightarrow> 'a completion" where
  "fail message =
     Throw (if truthy message then ''Debug Failure. '' @ toString_opt message
            else ''Debug Failure.'')"

text \<open>
  The third parameter of \<^verbatim>\<open>assert\<close> is a string or a function producing one.  A function
  of the host may change state \<open>'s\<close> of its own and may throw.
\<close>

datatype 's verboseDebugInfo = InfoString string | InfoThunk "'s \<Rightarrow> string completion \<times> 's"

definition verbose_header :: string where
  "verbose_header = [CHR 0x0D, CHR 0x0A] @ ''Verbose Debug Information: ''"

definition false_expression :: "string option \<Rightarrow> 'a completion" where
  "false_expression message =
     fail (Some (if truthy message then ''False expression: '' @ toString_opt message
                 else ''False expression.''))"

definition assert ::
  "bool \<Rightarrow> string option \<Rightarrow> 's verboseDebugInfo option \<Rightarrow> 's \<Rightarrow> unit completion \<times> 's" where
  "assert expression message verboseDebugInfo s =
     (if \<not> expression then
        (case verboseDebugInfo of
           None \<Rightarrow> (false_expression message, s)
         | Some (InfoString v) \<Rightarrow>
             if v \<noteq> []
             then (false_expression (Some (toString_opt message @ verbose_header @ v)), s)
             else (false_expression message, s)
         | Some (InfoThunk thunk) \<Rightarrow>
             (case thunk s of
                (Throw e, s') \<Rightarrow> (Throw e, s')
              | (Return v, s') \<Rightarrow>
                  (false_expression (Some (toString_opt message @ verbose_header @ v)), s')))
      else (Return (), s))"

text \<open>
  The message template of the numeric comparisons as the specification words it:
  \<^verbatim>\<open>"Expected {a} {op} {b}."\<close>, the period included.
\<close>

definition expected_template :: "(real \<Rightarrow> string) \<Rightarrow> number \<Rightarrow> string \<Rightarrow> number \<Rightarrow> string" where
  "expected_template digits a op b =
     ''Expected '' @ Number_toString digits a @ '' '' @ op @ '' '' @ Number_toString digits b @ ''.''"

text \<open>
  The comparisons take two numbers.  The first parameter of the model is the digit generation
  of the engine, which the template literals use.
\<close>

definition assertLessThan ::
  "(real \<Rightarrow> string) \<Rightarrow> number \<Rightarrow> number \<Rightarrow> string option \<Rightarrow> unit completion" where
  "assertLessThan digits a b msg =
     (if greater_equal_number a b
      then fail (Some (''Expected '' @ Number_toString digits a @ '' < ''
                       @ Number_toString digits b @ ''. ''
                       @ (if truthy msg then toString_opt msg else '''')))
      else Return ())"

definition assertLessThanOrEqual :: "(real \<Rightarrow> string) \<Rightarrow> number \<Rightarrow> number \<Rightarrow> unit completion" where
  "assertLessThanOrEqual digits a b =
     (if greater_number a b
      then fail (Some (''Expected '' @ Number_toString digits a @ '' <= ''
                       @ Number_toString digits b))
      else Return ())"

definition assertGreaterThanOrEqual ::
  "(real \<Rightarrow> string) \<Rightarrow> number \<Rightarrow> number \<Rightarrow> unit completion" where
  "assertGreaterThanOrEqual digits a b =
     (if less_number a b
      then fail (Some (''Expected '' @ Number_toString digits a @ '' >= ''
                       @ Number_toString digits b))
      else Return ())"

section \<open>Enumeration formatter\<close>

text \<open>
  An enum object is read through \<^verbatim>\<open>for (const name in enumObject)\<close>: the model is the list
  of its enumerable properties in that order.  A TypeScript enum object holds numbers
  (the members) and strings (the reverse mapping, string members).
\<close>

datatype js_value = JSNumber int | JSString string

type_synonym enumObject = "(string \<times> js_value) list"

text \<open>
  Modelled from the spec: \<^verbatim>\<open>stableSort\<close> and \<^verbatim>\<open>compareValues\<close> are defined outside the
  given sources.  The spec says of the member list: sorted ascending by value, stable sort,
  ties keep the original declaration order.  The sort is an insertion sort that places an
  element before the elements that compare equal to it and came later.
\<close>

datatype Comparison = LessThan | EqualTo | GreaterThan

definition compareValues :: "int \<Rightarrow> int \<Rightarrow> Comparison" where
  "compareValues a b = (if a = b then EqualTo else if a < b then LessThan else GreaterThan)"

fun insert_by :: "('a \<Rightarrow> 'a \<Rightarrow> Comparison) \<Rightarrow> 'a \<Rightarrow> 'a list \<Rightarrow> 'a list" where
  "insert_by comparer x [] = [x]"
| "insert_by comparer x (y # ys) =
     (if comparer x y = GreaterThan then y # insert_by comparer x ys else x # y # ys)"

definition stableSort :: "'a list \<Rightarrow> ('a \<Rightarrow> 'a \<Rightarrow> Comparison) \<Rightarrow> 'a list" where
  "stableSort array comparer = foldr (insert_by comparer) array []"

text \<open>The loop of \<^verbatim>\<open>getEnumMembers\<close>: the properties whose value is a number.\<close>

fun enum_pairs :: "enumObject \<Rightarrow> (int \<times> string) list" where
  "enum_pairs [] = []"
| "enum_pairs ((name, JSNumber n) # rest) = (n, name) # enum_pairs rest"
| "enum_pairs ((name, JSString s) # rest) = enum_pairs rest"

definition getEnumMembers :: "enumObject \<Rightarrow> (int \<times> string) list" where
  "getEnumMembers enumObject =
     stableSort (enum_pairs enumObject) (\<lambda>x y. compareValues (fst x) (fst y))"

text \<open>
  The bitwise operators of JavaScript convert their operands to 32-bit signed integers
  and produce one.
\<close>

definition toInt32 :: "int \<Rightarrow> 32 word" where
  "toInt32 x = word_of_int x"

definition js_bitand :: "int \<Rightarrow> int \<Rightarrow> int" where
  "js_bitand a b = sint (toInt32 a AND toInt32 b)"

definition js_bitnot :: "int \<Rightarrow> int" where
  "js_bitnot a = sint (NOT (toInt32 a))"

text \<open>
  The loop \<^verbatim>\<open>for (let i = members.length - 1; i >= 0 && remainingFlags !== 0; i--)\<close>.
  The counter of the model is \<open>i + 1\<close>, so that \<open>0\<close> stands for \<open>i = -1\<close>; it starts at
  \<open>length members\<close>, and \<open>members ! i\<close> is always in range.
\<close>

fun flags_loop ::
  "(int \<times> string) list \<Rightarrow> (int \<Rightarrow> string \<Rightarrow> bool) option \<Rightarrow> nat \<Rightarrow> int \<Rightarrow> string
   \<Rightarrow> int \<times> string" where
  "flags_loop members filterEnum 0 remainingFlags result = (remainingFlags, result)"
| "flags_loop members filterEnum (Suc i) remainingFlags result =
     (if remainingFlags = 0 then (remainingFlags, result)
      else
        (case members ! i of (enumValue, enumName) \<Rightarrow>
           if (case filterEnum of None \<Rightarrow> True | Some f \<Rightarrow> f enumValue enumName)
              \<and> enumValue \<noteq> 0 \<and> js_bitand remainingFlags enumValue = enumValue
           then flags_loop members filterEnum i
                  (js_bitand remainingFlags (js_bitnot enumValue))
                  (enumName @ (if result \<noteq> [] then ''|'' else []) @ result)
           else flags_loop members filterEnum i remainingFlags result))"

text \<open>The loop \<^verbatim>\<open>for (const [enumValue, enumName] of members)\<close> with its early return.\<close>

fun members_loop :: "(int \<times> string) list \<Rightarrow> int \<Rightarrow> string option" where
  "members_loop [] v = None"
| "members_loop ((enumValue, enumName) # rest) v =
     (if enumValue = v then Some enumName else members_loop rest v)"

text \<open>An absent \<open>value\<close> takes the default \<open>0\<close>; an absent \<open>isFlags\<close> is \<open>False\<close>.\<close>

definition formatEnum ::
  "int option \<Rightarrow> enumObject \<Rightarrow> bool \<Rightarrow> (int \<Rightarrow> string \<Rightarrow> bool) option \<Rightarrow> string" where
  "formatEnum value_opt enumObject isFlags filterEnum =
     (let v = (case value_opt of None \<Rightarrow> 0 | Some n \<Rightarrow> n);
          members = getEnumMembers enumObject
      in if v = 0 then
           (let zeroMembers = filter (\<lambda>member. fst member = 0) members
            in if length zeroMembers > 0 then snd (zeroMembers ! 0) else ''0'')
         else if isFlags then
           (case flags_loop members filterEnum (length members) v [] of
              (remainingFlags, result) \<Rightarrow>
                if remainingFlags = 0 then result else number_toString v)
         else
           (case members_loop members v of
              Some enumName \<Rightarrow> enumName
            | None \<Rightarrow> number_toString v))"

subsection \<open>The reference algorithm of the specification\<close>

text \<open>
  The four steps of section 4.3 of the specification, written after its words and not
  after the code.  \<open>decompose\<close> scans a member list that is given from highest to lowest
  value with the bits still unaccounted for: it stops with the accumulated text when they
  reach \<open>0\<close>, skips zero-valued members and members the filter rejects, consumes a member
  whose bits are all present (clears them, prepends its name, pipe-joined), and has no
  answer when the scan ends with bits left.
\<close>

definition accepted :: "(int \<Rightarrow> string \<Rightarrow> bool) option \<Rightarrow> int \<Rightarrow> string \<Rightarrow> bool" where
  "accepted flt v name = (case flt of None \<Rightarrow> True | Some f \<Rightarrow> f v name)"

definition pipe_prepend :: "string \<Rightarrow> string \<Rightarrow> string" where
  "pipe_prepend name acc = (if acc = [] then name else name @ ''|'' @ acc)"

fun decompose ::
  "(int \<times> string) list \<Rightarrow> (int \<Rightarrow> string \<Rightarrow> bool) option \<Rightarrow> int \<Rightarrow> string \<Rightarrow> string option" where
  "decompose [] flt remaining acc = (if remaining = 0 then Some acc else None)"
| "decompose ((v, name) # lower) flt remaining acc =
     (if remaining = 0 then Some acc
      else if v = 0 then decompose lower flt remaining acc
      else if \<not> accepted flt v name then decompose lower flt remaining acc
      else if js_bitand remaining v = v
      then decompose lower flt (js_bitand remaining (js_bitnot v)) (pipe_prepend name acc)
      else decompose lower flt remaining acc)"

definition formatEnum_reference ::
  "int \<Rightarrow> (int \<times> string) list \<Rightarrow> bool \<Rightarrow> (int \<Rightarrow> string \<Rightarrow> bool) option \<Rightarrow> string" where
  "formatEnum_reference v members isFlags flt =
     (if v = 0 then
        (case find (\<lambda>m. fst m = 0) members of Some m \<Rightarrow> snd m | None \<Rightarrow> ''0'')
      else if \<not> isFlags then
        (case find (\<lambda>m. fst m = v) members of Some m \<Rightarrow> snd m | None \<Rightarrow> number_toString v)
      else
        (case decompose (rev members) flt v [] of
           Some text \<Rightarrow> text
         | None \<Rightarrow> number_toString v))"

section \<open>Node assertions\<close>

text \<open>
  A node is known to this module by its \<^verbatim>\<open>kind\<close>.  A predicate of the caller is a function
  object: the name that \<^verbatim>\<open>getFunctionName\<close> reads off it, and what a call does, which may
  change state of the caller's and may throw.  \<^verbatim>\<open>getFunctionName\<close> of something that is not
  a function is the empty string.
\<close>

record Node =
  kind :: int

datatype ('a, 's) js_function =
  JSFunction (function_name: string) (call: "'a \<Rightarrow> 's \<Rightarrow> bool completion \<times> 's")

definition getFunctionName :: "('a, 's) js_function option \<Rightarrow> string" where
  "getFunctionName func = (case func of None \<Rightarrow> [] | Some f \<Rightarrow> function_name f)"

text \<open>The enum object \<^verbatim>\<open>ts.SyntaxKind\<close> is declared elsewhere: it is a parameter.\<close>

definition formatSyntaxKind :: "enumObject \<Rightarrow> int option \<Rightarrow> string" where
  "formatSyntaxKind SyntaxKind k = formatEnum k SyntaxKind False None"

text \<open>
  Modelled from the spec: \<^verbatim>\<open>every\<close> and \<^verbatim>\<open>noop\<close> are defined outside the given sources.
  The spec has \<^verbatim>\<open>assertEachNode\<close> apply the caller's predicate to the nodes, and calls the
  disabled operation a no-op.  \<open>every\<close> calls the predicate on the elements in order and
  stops at the first that is rejected.
\<close>

fun every :: "'a list \<Rightarrow> ('a \<Rightarrow> 's \<Rightarrow> bool completion \<times> 's) \<Rightarrow> 's \<Rightarrow> bool completion \<times> 's" where
  "every [] callback s = (Return True, s)"
| "every (x # xs) callback s =
     (case callback x s of
        (Throw e, s') \<Rightarrow> (Throw e, s')
      | (Return b, s') \<Rightarrow> if \<not> b then (Return False, s') else every xs callback s')"

definition noop :: "'s \<Rightarrow> unit completion \<times> 's" where
  "noop s = (Return (), s)"

definition unexpected_node :: "string option \<Rightarrow> string option" where
  "unexpected_node message = Some (if truthy message then toString_opt message
                                   else ''Unexpected node.'')"

text \<open>The arrow functions bound when \<^verbatim>\<open>shouldAssert(AssertionLevel.Normal)\<close> holds.\<close>

definition assertEachNode_checked ::
  "Node list \<Rightarrow> (Node, 's) js_function option \<Rightarrow> string option \<Rightarrow> 's \<Rightarrow> unit completion \<times> 's" where
  "assertEachNode_checked nodes test message s =
     (case (case test of None \<Rightarrow> (Return True, s) | Some t \<Rightarrow> every nodes (call t) s) of
        (Throw e, s') \<Rightarrow> (Throw e, s')
      | (Return b, s') \<Rightarrow>
          assert b (unexpected_node message)
            (Some (InfoThunk (\<lambda>s''. (Return (''Node array did not pass test '' @ [CHR 0x27]
                                              @ getFunctionName test @ [CHR 0x27] @ ''.''), s''))))
            s')"

definition assertNode_checked ::
  "enumObject \<Rightarrow> Node option \<Rightarrow> (Node option, 's) js_function option \<Rightarrow> string option \<Rightarrow> 's
   \<Rightarrow> unit completion \<times> 's" where
  "assertNode_checked SyntaxKind node test message s =
     (case (case test of None \<Rightarrow> (Return True, s) | Some t \<Rightarrow> call t node s) of
        (Throw e, s') \<Rightarrow> (Throw e, s')
      | (Return b, s') \<Rightarrow>
          assert b (unexpected_node message)
            (Some (InfoThunk (\<lambda>s''.
               (case node of
                  None \<Rightarrow> Throw ''TypeError: Cannot read property kind of undefined''
                | Some n \<Rightarrow>
                    Return (''Node '' @ formatSyntaxKind SyntaxKind (Some (kind n))
                            @ '' did not pass test '' @ [CHR 0x27] @ getFunctionName test
                            @ [CHR 0x27] @ ''.''),
                s''))))
            s')"

text \<open>
  \<^verbatim>\<open>assertEachNode\<close> and \<^verbatim>\<open>assertNode\<close> are constants, bound once when the module is
  initialised: \<open>init\<close> is the state of \<^verbatim>\<open>Debug\<close> at that moment.
\<close>

definition assertEachNode ::
  "world \<Rightarrow> Node list \<Rightarrow> (Node, 's) js_function option \<Rightarrow> string option \<Rightarrow> 's
   \<Rightarrow> unit completion \<times> 's" where
  "assertEachNode init nodes test message s =
     (if shouldAssert init AssertionLevel_Normal
      then assertEachNode_checked nodes test message s
      else noop s)"

definition assertNode ::
  "world \<Rightarrow> enumObject \<Rightarrow> Node option \<Rightarrow> (Node option, 's) js_function option \<Rightarrow> string option
   \<Rightarrow> 's \<Rightarrow> unit completion \<times> 's" where
  "assertNode init SyntaxKind node test message s =
     (if shouldAssert init AssertionLevel_Normal
      then assertNode_checked SyntaxKind node test message s
      else noop s)"

section \<open>Deprecation interceptor\<close>

record DeprecationOptions =
  message :: "string option"
  error :: "bool option"
  since :: "string option"
  until :: "string option"

text \<open>
  The closure \<^verbatim>\<open>handleDeprecation\<close> with what it captures: the options, the message
  formatted at creation and the variable \<^verbatim>\<open>hasWrittenDeprecation\<close>.
  \<^verbatim>\<open>formatStringFromArgs\<close> is defined outside the given sources and is a parameter.
\<close>

record Deprecation =
  options :: DeprecationOptions
  formattedMessage :: string
  hasWrittenDeprecation :: bool

definition createDeprecation ::
  "(string \<Rightarrow> string list \<Rightarrow> nat \<Rightarrow> string) \<Rightarrow> string \<Rightarrow> DeprecationOptions \<Rightarrow> Deprecation" where
  "createDeprecation formatStringFromArgs name opts =
     (let m1 = (if error opts = Some True then ''DeprecationError: ''
                else ''DeprecationWarning: '');
          m2 = m1 @ [CHR 0x27] @ name @ [CHR 0x27] @ '' ''
               @ (if truthy (since opts)
                  then ''has been deprecated since '' @ toString_opt (since opts)
                  else ''is deprecated'');
          m3 = m2 @ (if error opts = Some True then '' and can no longer be used.''
                     else if truthy (until opts)
                     then '' and will no longer be usable after '' @ toString_opt (until opts)
                          @ ''.''
                     else ''.'');
          m4 = m3 @ (if truthy (message opts)
                     then '' '' @ formatStringFromArgs (toString_opt (message opts)) [name] 0
                     else [])
      in \<lparr>options = opts, formattedMessage = m4, hasWrittenDeprecation = False\<rparr>)"

definition handleDeprecation ::
  "Deprecation \<times> world \<Rightarrow> unit completion \<times> (Deprecation \<times> world)" where
  "handleDeprecation st =
     (case st of (d, w) \<Rightarrow>
        if error (options d) = Some True then (fail (Some (formattedMessage d)), (d, w))
        else if hasWrittenDeprecation d then (Return (), (d, w))
        else (case log_warn (formattedMessage d) w of
                (r, w') \<Rightarrow> (r, (d\<lparr>hasWrittenDeprecation := True\<rparr>, w'))))"

text \<open>\<open>n\<close> invocations in a row; the caller goes on after a throw.\<close>

fun invocations ::
  "nat \<Rightarrow> Deprecation \<times> world \<Rightarrow> unit completion list \<times> (Deprecation \<times> world)" where
  "invocations 0 st = ([], st)"
| "invocations (Suc n) st =
     (case handleDeprecation st of
        (r, st') \<Rightarrow> (case invocations n st' of (rs, st'') \<Rightarrow> (r # rs, st'')))"

section \<open>Theorems: logger and assertions\<close>

declare string_of_nat.simps [simp del]

lemma string_of_nat_digit: "n < 10 \<Longrightarrow> string_of_nat n = [digit_char n]"
  by (subst string_of_nat.simps) simp

text \<open>
  Claim C8.  A logging call forwards \<open>(severity, text)\<close> to the sink exactly when a sink is
  registered and the current threshold is numerically at most the severity of the message,
  where Off = 0, Error = 1, Warning = 2, Info = 3, Verbose = 4.  In every other case the
  state is unchanged, and in every case the call returns: no input makes it throw.  The
  five entry points are \<open>logMessage\<close> at their fixed severity.
\<close>

theorem logMessage_forwards_iff:
  "logMessage level s w =
     (Return (),
      if loggingHost w \<noteq> None \<and> level_rank (currentLogLevel w) \<le> level_rank level
      then w\<lparr>loggingHost := map_option (\<lambda>host. host @ [(level, s)]) (loggingHost w)\<rparr>
      else w)
   \<and> map level_rank [Off, Error, Warning, Info, Verbose] = [0, 1, 2, 3, 4]
   \<and> log_info s w = logMessage Info s w \<and> log_error s w = logMessage Error s w
   \<and> log_warn s w = logMessage Warning s w \<and> log_log s w = logMessage Info s w
   \<and> log_trace s w = logMessage Verbose s w"
  by (cases "loggingHost w")
     (simp_all add: logMessage_def shouldLog_def log_info_def log_error_def log_warn_def
        log_log_def log_trace_def)

theorem logMessage_forwards_iff_witness:
  "logMessage Warning ''w''
     \<lparr>currentAssertionLevel = AssertionLevel_None, currentLogLevel = Error,
      isDebugging = False, loggingHost = Some []\<rparr>
   = (Return (),
      \<lparr>currentAssertionLevel = AssertionLevel_None, currentLogLevel = Error,
       isDebugging = False, loggingHost = Some [(Warning, ''w'')]\<rparr>)
   \<and> logMessage Warning ''w''
     \<lparr>currentAssertionLevel = AssertionLevel_None, currentLogLevel = Info,
      isDebugging = False, loggingHost = Some []\<rparr>
   = (Return (),
      \<lparr>currentAssertionLevel = AssertionLevel_None, currentLogLevel = Info,
       isDebugging = False, loggingHost = Some []\<rparr>)
   \<and> logMessage Warning ''w''
     \<lparr>currentAssertionLevel = AssertionLevel_None, currentLogLevel = Off,
      isDebugging = False, loggingHost = None\<rparr>
   = (Return (),
      \<lparr>currentAssertionLevel = AssertionLevel_None, currentLogLevel = Off,
       isDebugging = False, loggingHost = None\<rparr>)"
  using logMessage_forwards_iff [of Warning "''w''"
      "\<lparr>currentAssertionLevel = AssertionLevel_None, currentLogLevel = Error,
        isDebugging = False, loggingHost = Some []\<rparr>"]
    logMessage_forwards_iff [of Warning "''w''"
      "\<lparr>currentAssertionLevel = AssertionLevel_None, currentLogLevel = Info,
        isDebugging = False, loggingHost = Some []\<rparr>"]
    logMessage_forwards_iff [of Warning "''w''"
      "\<lparr>currentAssertionLevel = AssertionLevel_None, currentLogLevel = Off,
        isDebugging = False, loggingHost = None\<rparr>"]
  by simp

text \<open>
  Claim C5, at the input where the code leaves it: \<^verbatim>\<open>assert(false, undefined, "details")\<close>.
  No message is given, so the claim expects \<^verbatim>\<open>"False expression."\<close> followed by the verbose
  information.  The code appends the verbose information to the absent message first
  (\<^verbatim>\<open>message += ...\<close>), which turns it into the text \<^verbatim>\<open>undefined\<close> followed by the
  information, and then reports \<^verbatim>\<open>"False expression: undefined..."\<close>.
\<close>

theorem assert_undefined_message_verbose:
  "assert False None (Some (InfoString ''details'')) s =
     (Throw (''Debug Failure. False expression: undefined'' @ [CHR 0x0D, CHR 0x0A]
             @ ''Verbose Debug Information: details''), s)"
  by (simp add: assert_def false_expression_def fail_def truthy_def toString_opt_def
        verbose_header_def)

text \<open>
  Claim C7 as stated fails.  The message of \<^verbatim>\<open>assertLessThanOrEqual(2, 1)\<close> has no trailing
  period: it is neither the template nor the template behind the prefix that \<^verbatim>\<open>fail\<close>
  adds.  And \<^verbatim>\<open>assertLessThan(NaN, 1)\<close> returns, although NaN is not less than 1.
\<close>

theorem assertLessThanOrEqual_no_period:
  "assertLessThanOrEqual (\<lambda>r. []) (Finite 2) (Finite 1) = Throw ''Debug Failure. Expected 2 <= 1''
   \<and> assertLessThanOrEqual (\<lambda>r. []) (Finite 2) (Finite 1)
       \<noteq> Throw (expected_template (\<lambda>r. []) (Finite 2) ''<='' (Finite 1))
   \<and> assertLessThanOrEqual (\<lambda>r. []) (Finite 2) (Finite 1)
       \<noteq> Throw (''Debug Failure. '' @ expected_template (\<lambda>r. []) (Finite 2) ''<='' (Finite 1))
   \<and> assertLessThan (\<lambda>r. []) NaN (Finite 1) None = Return ()
   \<and> Number_lessThan NaN (Finite 1) \<noteq> Some True"
  by (simp add: assertLessThanOrEqual_def assertLessThan_def expected_template_def fail_def
        truthy_def toString_opt_def greater_number_def greater_equal_number_def
        Number_toString_def number_toString_def string_of_nat_digit digit_char_def)

text \<open>
  Claim C7, amended.  For all numbers \<open>a\<close> and \<open>b\<close>, each of the three comparisons returns
  when an operand is NaN or the comparison holds.  Otherwise each throws the message
  \<^verbatim>\<open>"Debug Failure. Expected {a} {op} {b}"\<close> with its own operator, where \<^verbatim>\<open>{a}\<close> and
  \<^verbatim>\<open>{b}\<close> are the operands as the language converts numbers to strings;
  \<^verbatim>\<open>assertLessThan\<close> continues it with a period, a space and the caller's message (nothing
  when that is absent), and the other two end after \<^verbatim>\<open>{b}\<close>, without a period.  On finite
  operands the comparison is the order of the real numbers, and an integer of magnitude
  below \<open>2\<^sup>5\<^sup>3\<close> is written with its decimal digits.
\<close>

theorem assert_comparisons_messages:
  "assertLessThan digits a b msg =
     (if a = NaN \<or> b = NaN \<or> less_number a b then Return ()
      else Throw (''Debug Failure. Expected '' @ Number_toString digits a @ '' < ''
                  @ Number_toString digits b @ ''. '' @ (case msg of None \<Rightarrow> [] | Some m \<Rightarrow> m)))
   \<and> assertLessThanOrEqual digits a b =
     (if a = NaN \<or> b = NaN \<or> \<not> less_number b a then Return ()
      else Throw (''Debug Failure. Expected '' @ Number_toString digits a @ '' <= ''
                  @ Number_toString digits b))
   \<and> assertGreaterThanOrEqual digits a b =
     (if a = NaN \<or> b = NaN \<or> \<not> less_number a b then Return ()
      else Throw (''Debug Failure. Expected '' @ Number_toString digits a @ '' >= ''
                  @ Number_toString digits b))
   \<and> less_number (Finite x) (Finite y) = (x < y)
   \<and> (\<bar>n\<bar> < 2 ^ 53 \<longrightarrow> Number_toString digits (Finite (of_int n)) = number_toString n)"
proof -
  have undefined_or: "Number_lessThan a b = None \<longleftrightarrow> a = NaN \<or> b = NaN"
    by (cases a; cases b) simp_all
  have symmetric: "Number_lessThan b a = None \<longleftrightarrow> a = NaN \<or> b = NaN"
    by (cases a; cases b) simp_all
  have "(\<bar>of_int n :: real\<bar> < 2 ^ 53) = (\<bar>n\<bar> < 2 ^ 53)"
    by (metis of_int_abs of_int_less_iff of_int_numeral of_int_power)
  then have safe: "\<bar>n\<bar> < 2 ^ 53 \<longrightarrow> Number_toString digits (Finite (of_int n)) = number_toString n"
    by (simp add: Number_toString_def)
  show ?thesis
    using undefined_or symmetric safe
    by (cases msg; cases "Number_lessThan a b"; cases "Number_lessThan b a")
      (auto simp: assertLessThan_def assertLessThanOrEqual_def assertGreaterThanOrEqual_def
         fail_def truthy_def toString_opt_def less_number_def greater_number_def
         greater_equal_number_def)
qed

theorem assert_comparisons_messages_witness:
  "assertLessThan (\<lambda>r. []) (Finite 3) (Finite 3) (Some ''m'') = Throw ''Debug Failure. Expected 3 < 3. m''
   \<and> assertLessThanOrEqual (\<lambda>r. []) (Finite 2) (Finite 1) = Throw ''Debug Failure. Expected 2 <= 1''
   \<and> assertGreaterThanOrEqual (\<lambda>r. []) (Finite (- 2)) (Finite 0)
       = Throw ''Debug Failure. Expected -2 >= 0''
   \<and> assertGreaterThanOrEqual (\<lambda>r. []) NegInfinity (Finite 0)
       = Throw ''Debug Failure. Expected -Infinity >= 0''
   \<and> assertLessThan (\<lambda>r. []) (Finite 1) (Finite 2) None = Return ()
   \<and> assertLessThan (\<lambda>r. []) NaN (Finite 2) None = Return ()
   \<and> \<bar>7 :: int\<bar> < 2 ^ 53 \<and> Number_toString (\<lambda>r. []) (Finite (of_int 7)) = ''7''"
  using assert_comparisons_messages [of "\<lambda>r. []" "Finite 3" "Finite 3" "Some ''m''" 0 0 7]
    assert_comparisons_messages [of "\<lambda>r. []" "Finite 2" "Finite 1" None 0 0 0]
    assert_comparisons_messages [of "\<lambda>r. []" "Finite (- 2)" "Finite 0" None 0 0 0]
    assert_comparisons_messages [of "\<lambda>r. []" NegInfinity "Finite 0" None 0 0 0]
    assert_comparisons_messages [of "\<lambda>r. []" "Finite 1" "Finite 2" None 0 0 0]
    assert_comparisons_messages [of "\<lambda>r. []" NaN "Finite 2" None 0 0 0]
  by (simp add: less_number_def Number_toString_def number_toString_def string_of_nat_digit
        digit_char_def)

section \<open>Theorems: enumeration formatter\<close>

lemma set_insert_by: "set (insert_by c x ys) = insert x (set ys)"
  by (induction ys) auto

lemma insert_by_sorted:
  "sorted (map fst ys) \<Longrightarrow> sorted (map fst (insert_by (\<lambda>x y. compareValues (fst x) (fst y)) x ys))"
  by (induction ys) (auto simp: compareValues_def set_insert_by split: if_splits)

lemma stableSort_sorted: "sorted (map fst (stableSort xs (\<lambda>x y. compareValues (fst x) (fst y))))"
  unfolding stableSort_def by (induction xs) (auto simp: insert_by_sorted)

lemma stableSort_set: "set (stableSort xs c) = set xs"
  unfolding stableSort_def by (induction xs) (auto simp: set_insert_by)

lemma first_of_filter_find:
  "(let z = filter P xs in if length z > 0 then f (z ! 0) else d) = (case find P xs of Some m \<Rightarrow> f m | None \<Rightarrow> d)"
  by (induction xs) auto

lemma members_loop_find:
  "members_loop ms v = map_option snd (find (\<lambda>m. fst m = v) ms)"
  by (induction ms v rule: members_loop.induct) auto

lemma flags_loop_decompose:
  "k \<le> length ms \<Longrightarrow>
   (case flags_loop ms f k r acc of (r', res) \<Rightarrow> if r' = 0 then Some res else None)
   = decompose (rev (take k ms)) f r acc"
proof (induction k arbitrary: r acc)
  case 0
  then show ?case by simp
next
  case (Suc k)
  then have k: "k < length ms" by simp
  have tk: "rev (take (Suc k) ms) = ms ! k # rev (take k ms)"
    using k by (simp add: take_Suc_conv_app_nth)
  obtain v n where vn: "ms ! k = (v, n)" by (cases "ms ! k")
  from Suc.IH k have IH: "\<And>r acc. (case flags_loop ms f k r acc of (r', res) \<Rightarrow> if r' = 0 then Some res else None)
   = decompose (rev (take k ms)) f r acc" by simp
  show ?case
    unfolding tk vn
    by (simp add: IH vn accepted_def pipe_prepend_def split: option.splits)
qed

text \<open>
  Claim C1.  \<open>formatEnum\<close> computes what the four-step reference algorithm computes, for
  every value, enum object, flag mode and filter: with value \<open>0\<close> (or no value) the name of
  the first member whose value is \<open>0\<close>, else \<open>"0"\<close>; without \<open>isFlags\<close> the name of the first
  member, in ascending order of value, whose value is the given one, else its decimal
  string; with \<open>isFlags\<close> the greedy decomposition scanning from the highest member to the
  lowest, and the decimal string of the original value when bits remain.  The member list
  holds exactly the number-valued properties, in ascending order of value.
\<close>

theorem formatEnum_follows_reference:
  "formatEnum value_opt enumObject isFlags filterEnum =
     formatEnum_reference (case value_opt of None \<Rightarrow> 0 | Some n \<Rightarrow> n)
       (getEnumMembers enumObject) isFlags filterEnum
   \<and> sorted (map fst (getEnumMembers enumObject))
   \<and> set (getEnumMembers enumObject) = {(n, name). (name, JSNumber n) \<in> set enumObject}"
proof -
  define v where "v = (case value_opt of None \<Rightarrow> 0 | Some n \<Rightarrow> n)"
  define ms where "ms = getEnumMembers enumObject"
  have zero: "(let z = filter (\<lambda>member. fst member = 0) ms
               in if length z > 0 then snd (z ! 0) else ''0'')
              = (case find (\<lambda>m. fst m = 0) ms of Some m \<Rightarrow> snd m | None \<Rightarrow> ''0'')"
    by (rule first_of_filter_find)
  have exact: "(case members_loop ms v of Some enumName \<Rightarrow> enumName | None \<Rightarrow> number_toString v)
               = (case find (\<lambda>m. fst m = v) ms of Some m \<Rightarrow> snd m | None \<Rightarrow> number_toString v)"
    by (simp add: members_loop_find split: option.splits)
  have "decompose (rev ms) filterEnum v []
        = (case flags_loop ms filterEnum (length ms) v [] of (r', res) \<Rightarrow> if r' = 0 then Some res else None)"
    using flags_loop_decompose [of "length ms" ms filterEnum v "[]"] by simp
  then have flags: "(case flags_loop ms filterEnum (length ms) v [] of
                (remainingFlags, result) \<Rightarrow> if remainingFlags = 0 then result else number_toString v)
             = (case decompose (rev ms) filterEnum v [] of Some text \<Rightarrow> text | None \<Rightarrow> number_toString v)"
    by (cases "flags_loop ms filterEnum (length ms) v []") (auto split: if_splits)
  have eq: "formatEnum value_opt enumObject isFlags filterEnum = formatEnum_reference v ms isFlags filterEnum"
    unfolding formatEnum_def formatEnum_reference_def v_def [symmetric] ms_def [symmetric] Let_def
    using zero exact flags by (simp add: Let_def)
  have pairs: "set (enum_pairs e) = {(n, name). (name, JSNumber n) \<in> set e}" for e
    by (induction e rule: enum_pairs.induct) auto
  show ?thesis
    using eq by (simp add: v_def ms_def getEnumMembers_def stableSort_sorted stableSort_set pairs)
qed
theorem formatEnum_follows_reference_witness:
  "formatEnum (Some 7)
     [(''None'', JSNumber 0), (''A'', JSNumber 1), (''B'', JSNumber 2), (''C'', JSNumber 4),
      (''AB'', JSNumber 3), (''1'', JSString ''A'')] True None = ''AB|C''
   \<and> formatEnum_reference 7
     (getEnumMembers [(''None'', JSNumber 0), (''A'', JSNumber 1), (''B'', JSNumber 2),
        (''C'', JSNumber 4), (''AB'', JSNumber 3), (''1'', JSString ''A'')]) True None = ''AB|C''
   \<and> formatEnum (Some 8)
     [(''None'', JSNumber 0), (''A'', JSNumber 1), (''B'', JSNumber 2), (''C'', JSNumber 4),
      (''AB'', JSNumber 3), (''1'', JSString ''A'')] True None = ''8''"
  using formatEnum_follows_reference [of "Some 7"
      "[(''None'', JSNumber 0), (''A'', JSNumber 1), (''B'', JSNumber 2), (''C'', JSNumber 4),
        (''AB'', JSNumber 3), (''1'', JSString ''A'')]" True None]
    formatEnum_follows_reference [of "Some 8"
      "[(''None'', JSNumber 0), (''A'', JSNumber 1), (''B'', JSNumber 2), (''C'', JSNumber 4),
        (''AB'', JSNumber 3), (''1'', JSString ''A'')]" True None]
  by (simp add: formatEnum_reference_def getEnumMembers_def stableSort_def compareValues_def
        js_bitand_def js_bitnot_def toInt32_def accepted_def pipe_prepend_def
        number_toString_def string_of_nat_digit digit_char_def)

section \<open>Theorems: node assertions and deprecations\<close>

text \<open>
  Claim C6.  When the assertion level at initialisation is below Normal, \<open>assertNode\<close> and
  \<open>assertEachNode\<close> are bound to the no-op: for every node or node array, every predicate
  and every message the call returns and leaves the state of the caller as it was.  The
  result does not depend on the predicate, which is therefore never called, whatever it
  would answer, change or throw.
\<close>

theorem assertNode_disabled_noop:
  "assertion_rank (currentAssertionLevel init) < assertion_rank AssertionLevel_Normal \<Longrightarrow>
     assertNode init SyntaxKind node test msg s = (Return (), s)
     \<and> assertEachNode init nodes test' msg' s = (Return (), s)"
  by (simp add: assertNode_def assertEachNode_def shouldAssert_def noop_def)

theorem assertNode_disabled_noop_witness:
  "assertion_rank (currentAssertionLevel
       \<lparr>currentAssertionLevel = AssertionLevel_None, currentLogLevel = Warning,
        isDebugging = False, loggingHost = None\<rparr>) < assertion_rank AssertionLevel_Normal
   \<and> assertNode
       \<lparr>currentAssertionLevel = AssertionLevel_None, currentLogLevel = Warning,
        isDebugging = False, loggingHost = None\<rparr> []
       (Some \<lparr>kind = 1\<rparr>) (Some (JSFunction ''never'' (\<lambda>n c. (Return False, Suc c)))) None (0::nat)
     = (Return (), 0)
   \<and> assertEachNode
       \<lparr>currentAssertionLevel = AssertionLevel_None, currentLogLevel = Warning,
        isDebugging = False, loggingHost = None\<rparr>
       [\<lparr>kind = 1\<rparr>] (Some (JSFunction ''never'' (\<lambda>n c. (Return False, Suc c)))) None (0::nat)
     = (Return (), 0)
   \<and> assertNode
       \<lparr>currentAssertionLevel = AssertionLevel_Normal, currentLogLevel = Warning,
        isDebugging = False, loggingHost = None\<rparr> []
       (Some \<lparr>kind = 1\<rparr>) (Some (JSFunction ''never'' (\<lambda>n c. (Return False, Suc c)))) None (0::nat)
     \<noteq> (Return (), 0)"
  using assertNode_disabled_noop [of
      "\<lparr>currentAssertionLevel = AssertionLevel_None, currentLogLevel = Warning,
        isDebugging = False, loggingHost = None\<rparr>" "[]" "Some \<lparr>kind = 1\<rparr>"
      "Some (JSFunction ''never'' (\<lambda>n c. (Return False, Suc c)))" None "0::nat"
      "[\<lparr>kind = 1\<rparr>]" "Some (JSFunction ''never'' (\<lambda>n c. (Return False, Suc c)))" None]
  by (simp add: assertNode_def assertNode_checked_def shouldAssert_def assert_def)

lemma formattedMessage_truthy: "truthy (Some (formattedMessage (createDeprecation fmt name opts)))"
  by (simp add: createDeprecation_def truthy_def Let_def)

lemma invocations_error:
  "error (options d) = Some True \<Longrightarrow>
   invocations n (d, w) = (replicate n (fail (Some (formattedMessage d))), (d, w))"
  by (induction n) (simp_all add: handleDeprecation_def)

lemma invocations_written:
  "error (options d) \<noteq> Some True \<Longrightarrow> hasWrittenDeprecation d \<Longrightarrow>
   invocations n (d, w) = (replicate n (Return ()), (d, w))"
  by (induction n) (simp_all add: handleDeprecation_def)

text \<open>
  Claim C4.  Take the closure that \<open>createDeprecation\<close> returns and invoke it \<open>n + 1\<close> times.
  With \<open>options.error\<close> set every invocation throws the same error, the formatted message
  behind \<open>Debug Failure.\<close>, and the closure and the state of \<open>Debug\<close> are unchanged.
  Otherwise every invocation returns, the flag ends set, and the state is the state after
  one logger call of severity Warning with the formatted message: the first invocation
  makes it, and any number of further invocations change nothing.
\<close>

theorem createDeprecation_invocations:
  "invocations (Suc n) (createDeprecation fmt name opts, w) =
     (if error opts = Some True
      then (replicate (Suc n)
              (Throw (''Debug Failure. '' @ formattedMessage (createDeprecation fmt name opts))),
            (createDeprecation fmt name opts, w))
      else (replicate (Suc n) (Return ()),
            ((createDeprecation fmt name opts)\<lparr>hasWrittenDeprecation := True\<rparr>,
             snd (logMessage Warning (formattedMessage (createDeprecation fmt name opts)) w))))
   \<and> (error opts \<noteq> Some True \<longrightarrow>
        invocations n (snd (handleDeprecation (createDeprecation fmt name opts, w)))
        = (replicate n (Return ()), snd (handleDeprecation (createDeprecation fmt name opts, w))))"
proof -
  define d where "d = createDeprecation fmt name opts"
  have opts: "options d = opts" and fresh: "\<not> hasWrittenDeprecation d"
    by (simp_all add: d_def createDeprecation_def Let_def)
  have t: "truthy (Some (formattedMessage d))"
    unfolding d_def by (rule formattedMessage_truthy)
  have lm: "fst (logMessage Warning m w) = Return ()" for m
    by (simp add: logMessage_def split: option.splits)
  show ?thesis
  proof (cases "error opts = Some True")
    case True
    then show ?thesis
      unfolding d_def [symmetric]
      using invocations_error [of d "Suc n" w] t opts
      by (simp add: fail_def toString_opt_def)
  next
    case False
    obtain r w' where lw: "logMessage Warning (formattedMessage d) w = (r, w')"
      by (cases "logMessage Warning (formattedMessage d) w")
    with lm [of "formattedMessage d"] have r: "r = Return ()" by simp
    have h: "handleDeprecation (d, w) = (Return (), (d\<lparr>hasWrittenDeprecation := True\<rparr>, w'))"
      using False opts fresh lw r by (simp add: handleDeprecation_def log_warn_def)
    have rest: "invocations k (d\<lparr>hasWrittenDeprecation := True\<rparr>, w')
                = (replicate k (Return ()), (d\<lparr>hasWrittenDeprecation := True\<rparr>, w'))" for k
      using invocations_written [of "d\<lparr>hasWrittenDeprecation := True\<rparr>" k w'] False opts
      by simp
    show ?thesis
      unfolding d_def [symmetric]
      using False h rest lw by simp
  qed
qed

theorem createDeprecation_invocations_witness:
  "invocations 3
     (createDeprecation (\<lambda>t args i. t) ''f''
        \<lparr>message = None, error = None, since = None, until = None\<rparr>,
      \<lparr>currentAssertionLevel = AssertionLevel_None, currentLogLevel = Warning,
       isDebugging = False, loggingHost = Some []\<rparr>)
   = ([Return (), Return (), Return ()],
      (\<lparr>options = \<lparr>message = None, error = None, since = None, until = None\<rparr>,
        formattedMessage = ''DeprecationWarning: '' @ [CHR 0x27] @ ''f'' @ [CHR 0x27]
                           @ '' is deprecated.'',
        hasWrittenDeprecation = True\<rparr>,
       \<lparr>currentAssertionLevel = AssertionLevel_None, currentLogLevel = Warning,
        isDebugging = False,
        loggingHost = Some [(Warning, ''DeprecationWarning: '' @ [CHR 0x27] @ ''f'' @ [CHR 0x27]
                                      @ '' is deprecated.'')]\<rparr>))
   \<and> invocations 2
     (createDeprecation (\<lambda>t args i. t) ''f''
        \<lparr>message = None, error = Some True, since = None, until = None\<rparr>,
      \<lparr>currentAssertionLevel = AssertionLevel_None, currentLogLevel = Warning,
       isDebugging = False, loggingHost = Some []\<rparr>)
   = ([Throw (''Debug Failure. DeprecationError: '' @ [CHR 0x27] @ ''f'' @ [CHR 0x27]
              @ '' is deprecated and can no longer be used.''),
       Throw (''Debug Failure. DeprecationError: '' @ [CHR 0x27] @ ''f'' @ [CHR 0x27]
              @ '' is deprecated and can no longer be used.'')],
      (\<lparr>options = \<lparr>message = None, error = Some True, since = None, until = None\<rparr>,
        formattedMessage = ''DeprecationError: '' @ [CHR 0x27] @ ''f'' @ [CHR 0x27]
                           @ '' is deprecated and can no longer be used.'',
        hasWrittenDeprecation = False\<rparr>,
       \<lparr>currentAssertionLevel = AssertionLevel_None, currentLogLevel = Warning,
        isDebugging = False, loggingHost = Some []\<rparr>))"
  using createDeprecation_invocations [of 2 "\<lambda>t args i. t" "''f''"
      "\<lparr>message = None, error = None, since = None, until = None\<rparr>"
      "\<lparr>currentAssertionLevel = AssertionLevel_None, currentLogLevel = Warning,
        isDebugging = False, loggingHost = Some []\<rparr>"]
    createDeprecation_invocations [of 1 "\<lambda>t args i. t" "''f''"
      "\<lparr>message = None, error = Some True, since = None, until = None\<rparr>"
      "\<lparr>currentAssertionLevel = AssertionLevel_None, currentLogLevel = Warning,
        isDebugging = False, loggingHost = Some []\<rparr>"]
  by (simp add: createDeprecation_def truthy_def logMessage_def shouldLog_def
        numeral_3_eq_3 numeral_2_eq_2)

section \<open>Regular expressions\<close>

text \<open>
  The stack-trace filter reads its input with regular expressions.  They are embedded as
  data and run by a backtracking matcher that follows the priorities of the JavaScript
  engine: \<open>ms r st\<close> lists, in the order in which backtracking visits them, the states
  in which \<open>r\<close> can end when it starts in \<open>st\<close>.  A state is the character before the
  position (for \<^verbatim>\<open>^\<close> and \<^verbatim>\<open>\b\<close>), the rest of the input and the captures so far, latest
  first.  Greedy quantifiers list the longer matches first, the lazy one the shorter; a
  quantifier does not repeat an iteration that matched the empty string; a lookahead keeps
  the captures of its first match and consumes nothing.  Characters are bytes: the line
  terminators that \<^verbatim>\<open>.\<close> refuses are LF and CR.
\<close>

text \<open>An item of a character class: one character or a range.\<close>

datatype citem = One char | Rng char char

fun in_item :: "char \<Rightarrow> citem \<Rightarrow> bool" where
  "in_item c (One d) = (c = d)"
| "in_item c (Rng lo hi) = ((of_char lo :: nat) \<le> of_char c \<and> (of_char c :: nat) \<le> of_char hi)"

datatype regex =
    RLit string
  | RDot
  | RSet bool "citem list"
  | RSeq regex regex
  | RAlt regex regex
  | ROpt regex
  | RStar regex
  | RLazyStar regex
  | RGroup nat regex
  | RLook regex
  | RNegLook regex
  | RBol
  | REol
  | RWordB

type_synonym captures = "(nat \<times> string) list"
type_synonym mstate = "char option \<times> string \<times> captures"

definition line_terminator :: "char \<Rightarrow> bool" where
  "line_terminator c = (c = CHR 0x0A \<or> c = CHR 0x0D)"

definition word_char :: "char option \<Rightarrow> bool" where
  "word_char p = (case p of None \<Rightarrow> False
     | Some c \<Rightarrow> list_ex (in_item c)
         [Rng CHR ''a'' CHR ''z'', Rng CHR ''A'' CHR ''Z'', Rng CHR ''0'' CHR ''9'', One CHR ''_''])"

definition rest_of :: "mstate \<Rightarrow> string" where
  "rest_of st = fst (snd st)"

definition caps_of :: "mstate \<Rightarrow> captures" where
  "caps_of st = snd (snd st)"

function ms :: "regex \<Rightarrow> mstate \<Rightarrow> mstate list" where
  "ms (RLit s) st =
     (if take (length s) (rest_of st) = s
      then [(if s = [] then fst st else Some (last s), drop (length s) (rest_of st), caps_of st)]
      else [])"
| "ms RDot st =
     (case rest_of st of
        [] \<Rightarrow> []
      | c # r \<Rightarrow> if line_terminator c then [] else [(Some c, r, caps_of st)])"
| "ms (RSet negated items) st =
     (case rest_of st of
        [] \<Rightarrow> []
      | c # r \<Rightarrow> if list_ex (in_item c) items \<noteq> negated then [(Some c, r, caps_of st)] else [])"
| "ms (RSeq r1 r2) st = concat (map (ms r2) (ms r1 st))"
| "ms (RAlt r1 r2) st = ms r1 st @ ms r2 st"
| "ms (ROpt r) st = ms r st @ [st]"
| "ms (RStar r) st =
     concat (map (\<lambda>st'. if length (rest_of st') < length (rest_of st) then ms (RStar r) st' else [])
               (ms r st)) @ [st]"
| "ms (RLazyStar r) st =
     st # concat (map (\<lambda>st'. if length (rest_of st') < length (rest_of st)
                               then ms (RLazyStar r) st' else [])
                    (ms r st))"
| "ms (RGroup n r) st =
     map (\<lambda>st'. (fst st', rest_of st',
                  (n, take (length (rest_of st) - length (rest_of st')) (rest_of st)) # caps_of st'))
         (ms r st)"
| "ms (RLook r) st = (case ms r st of [] \<Rightarrow> [] | st' # _ \<Rightarrow> [(fst st, rest_of st, caps_of st')])"
| "ms (RNegLook r) st = (case ms r st of [] \<Rightarrow> [st] | _ # _ \<Rightarrow> [])"
| "ms RBol st = (case fst st of None \<Rightarrow> [st] | Some _ \<Rightarrow> [])"
| "ms REol st = (case rest_of st of [] \<Rightarrow> [st] | _ # _ \<Rightarrow> [])"
| "ms RWordB st =
     (if word_char (fst st) \<noteq> word_char (case rest_of st of [] \<Rightarrow> None | c # _ \<Rightarrow> Some c)
      then [st] else [])"
  by pat_completeness auto
termination
  by (relation "measures [\<lambda>(r, st). size r, \<lambda>(r, st). length (rest_of st)]") auto

declare ms.simps [simp del]

definition Cat :: "regex list \<Rightarrow> regex" where
  "Cat rs = foldr RSeq rs (RLit [])"

definition OneOrMore :: "regex \<Rightarrow> regex" where
  "OneOrMore r = RSeq r (RStar r)"

fun search :: "regex \<Rightarrow> char option \<Rightarrow> string \<Rightarrow> nat \<Rightarrow> (nat \<times> mstate) option" where
  "search r p [] i = (case ms r (p, [], []) of [] \<Rightarrow> None | st # _ \<Rightarrow> Some (i, st))"
| "search r p (c # s) i =
     (case ms r (p, c # s, []) of [] \<Rightarrow> search r (Some c) s (Suc i) | st # _ \<Rightarrow> Some (i, st))"

definition exec :: "regex \<Rightarrow> string \<Rightarrow> (nat \<times> mstate) option" where
  "exec r s = search r None s 0"

definition group :: "(nat \<times> mstate) \<Rightarrow> nat \<Rightarrow> string option" where
  "group m n = map_of (caps_of (snd m)) n"

definition test :: "regex \<Rightarrow> string \<Rightarrow> bool" where
  "test r s = (exec r s \<noteq> None)"

definition replace_first ::
  "regex \<Rightarrow> string \<Rightarrow> ((nat \<times> mstate) \<Rightarrow> string) \<Rightarrow> string" where
  "replace_first r s replacer =
     (case exec r s of
        None \<Rightarrow> s
      | Some m \<Rightarrow> take (fst m) s @ replacer m @ rest_of (snd m))"

text \<open>
  What a match can hold: the rest of the input never grows, and a capture that was not
  there before is no longer than the input that was left.
\<close>

definition bounded_by :: "mstate \<Rightarrow> mstate \<Rightarrow> bool" where
  "bounded_by st st' =
     (length (rest_of st') \<le> length (rest_of st)
      \<and> (\<forall>e \<in> set (caps_of st'). e \<in> set (caps_of st) \<or> length (snd e) \<le> length (rest_of st)))"

lemma bounded_by_refl: "bounded_by st st"
  by (simp add: bounded_by_def)

lemma bounded_by_trans: "bounded_by a b \<Longrightarrow> bounded_by b c \<Longrightarrow> bounded_by a c"
  unfolding bounded_by_def by (meson le_trans)

lemma ms_bounded: "st' \<in> set (ms r st) \<Longrightarrow> bounded_by st st'"
proof (induction r st arbitrary: st' rule: ms.induct)
  case (1 s st)
  then show ?case
    by (cases st) (auto simp: ms.simps bounded_by_def rest_of_def caps_of_def split: if_splits)
next
  case (2 st)
  then show ?case
    by (cases st)
       (auto simp: ms.simps bounded_by_def rest_of_def caps_of_def split: if_splits list.splits)
next
  case (3 negated items st)
  then show ?case
    by (cases st)
       (auto simp: ms.simps bounded_by_def rest_of_def caps_of_def split: if_splits list.splits)
next
  case (4 r1 r2 st)
  from 4(3) obtain mid where mid: "mid \<in> set (ms r1 st)" and st': "st' \<in> set (ms r2 mid)"
    by (auto simp: ms.simps)
  from 4(1) [OF mid] 4(2) [OF mid st'] show ?case
    by (rule bounded_by_trans)
next
  case (5 r1 r2 st)
  from 5(3) have "st' \<in> set (ms r1 st) \<or> st' \<in> set (ms r2 st)"
    by (simp add: ms.simps)
  with 5(1) 5(2) show ?case by blast
next
  case (6 r st)
  from 6(2) have "st' \<in> set (ms r st) \<or> st' = st"
    by (auto simp: ms.simps)
  with 6(1) bounded_by_refl show ?case by blast
next
  case (7 r st)
  from 7(3) have "st' \<in> set (concat (map (\<lambda>st'. if length (rest_of st') < length (rest_of st)
                                                then ms (RStar r) st' else []) (ms r st)) @ [st])"
    by (subst (asm) ms.simps(7))
  then consider "st' = st"
    | mid where "mid \<in> set (ms r st)" "length (rest_of mid) < length (rest_of st)"
        "st' \<in> set (ms (RStar r) mid)"
    by (auto split: if_splits)
  then show ?case
  proof cases
    case 1
    then show ?thesis by (simp add: bounded_by_refl)
  next
    case 2
    from 7(1) [OF 2(1)] 7(2) [OF 2(1) 2(2) 2(3)] show ?thesis
      by (rule bounded_by_trans)
  qed
next
  case (8 r st)
  from 8(3) have "st' \<in> set (st # concat (map (\<lambda>st'. if length (rest_of st') < length (rest_of st)
                                                then ms (RLazyStar r) st' else []) (ms r st)))"
    by (subst (asm) ms.simps(8))
  then consider "st' = st"
    | mid where "mid \<in> set (ms r st)" "length (rest_of mid) < length (rest_of st)"
        "st' \<in> set (ms (RLazyStar r) mid)"
    by (auto split: if_splits)
  then show ?case
  proof cases
    case 1
    then show ?thesis by (simp add: bounded_by_refl)
  next
    case 2
    from 8(1) [OF 2(1)] 8(2) [OF 2(1) 2(2) 2(3)] show ?thesis
      by (rule bounded_by_trans)
  qed
next
  case (9 n r st)
  from 9(2) obtain mid where mid: "mid \<in> set (ms r st)"
    and st': "st' = (fst mid, rest_of mid,
                (n, take (length (rest_of st) - length (rest_of mid)) (rest_of st)) # caps_of mid)"
    by (auto simp: ms.simps)
  from 9(1) [OF mid] show ?case
    unfolding st' by (auto simp: bounded_by_def rest_of_def caps_of_def)
next
  case (10 r st)
  from 10(2) obtain mid where mid: "mid \<in> set (ms r st)"
    and st': "st' = (fst st, rest_of st, caps_of mid)"
    by (cases "ms r st") (auto simp: ms.simps)
  from 10(1) [OF mid] show ?case
    unfolding st' by (auto simp: bounded_by_def rest_of_def caps_of_def)
next
  case (11 r st)
  then have "st' = st"
    by (auto simp: ms.simps split: list.splits)
  then show ?case by (simp add: bounded_by_refl)
next
  case (12 st)
  then have "st' = st"
    by (auto simp: ms.simps split: option.splits)
  then show ?case by (simp add: bounded_by_refl)
next
  case (13 st)
  then have "st' = st"
    by (auto simp: ms.simps split: list.splits)
  then show ?case by (simp add: bounded_by_refl)
next
  case (14 st)
  then have "st' = st"
    by (auto simp: ms.simps split: if_splits)
  then show ?case by (simp add: bounded_by_refl)
qed

section \<open>Stack frames\<close>

datatype StackFrame = StackFrame
  (typeName: "string option")
  (functionName: "string option")
  (methodName: "string option")
  (fileName: "string option")
  (lineNumber: "int option")
  (columnNumber: "int option")
  (evalOrigin: "StackFrame option")
  (isConstructor: "bool option")
  (isAsync: "bool option")

text \<open>\<^verbatim>\<open>evalLocationRegExp = /^eval at (.*)$/\<close>\<close>

definition evalLocationRegExp :: regex where
  "evalLocationRegExp = Cat [RBol, RLit ''eval at '', RGroup 1 (RStar RDot), REol]"

text \<open>\<^verbatim>\<open>\d\<close>\<close>

definition digit :: regex where
  "digit = RSet False [Rng CHR ''0'' CHR ''9'']"

text \<open>
  \<^verbatim>\<open>fileLocationRegExp =
  /^(native|unknown location|<anonymous>|(?:(?:[a-zA-Z]|file|https?):)?[^:]+)(?::(\d+)(?::(\d+))?)?$/\<close>
\<close>

definition fileLocationRegExp :: regex where
  "fileLocationRegExp = Cat
     [RBol,
      RGroup 1
        (RAlt (RLit ''native'')
        (RAlt (RLit ''unknown location'')
        (RAlt (RLit ''<anonymous>'')
              (Cat [ROpt (Cat [RAlt (RSet False [Rng CHR ''a'' CHR ''z'', Rng CHR ''A'' CHR ''Z''])
                               (RAlt (RLit ''file'')
                                     (Cat [RLit ''http'', ROpt (RLit ''s'')])),
                               RLit '':'']),
                    OneOrMore (RSet True [One CHR '':''])])))),
      ROpt (Cat [RLit '':'', RGroup 2 (OneOrMore digit),
                 ROpt (Cat [RLit '':'', RGroup 3 (OneOrMore digit)])]),
      REol]"

text \<open>
  \<^verbatim>\<open>positionRegExp =
  /^(async )?(new )?((?:[^.]+\.)+)?((?:(?! [\[(]).)*)(?: \[as ([^\]]+)\])? \((.*)\)$/\<close>
\<close>

definition positionRegExp :: regex where
  "positionRegExp = Cat
     [RBol,
      ROpt (RGroup 1 (RLit ''async '')),
      ROpt (RGroup 2 (RLit ''new '')),
      ROpt (RGroup 3 (OneOrMore (Cat [OneOrMore (RSet True [One CHR ''.'']), RLit ''.'']))),
      RGroup 4 (RStar (Cat [RNegLook (Cat [RLit '' '', RSet False [One CHR ''['', One CHR ''('']]),
                            RDot])),
      ROpt (Cat [RLit '' [as '', RGroup 5 (OneOrMore (RSet True [One CHR '']''])), RLit '']'']),
      RLit '' ('',
      RGroup 6 (RStar RDot),
      RLit '')'',
      REol]"

text \<open>The expression \<^verbatim>\<open>/^    at (.*)$/\<close> of \<^verbatim>\<open>parseStackFrame\<close>.\<close>

definition frameRegExp :: regex where
  "frameRegExp = Cat [RBol, RLit ''    at '', RGroup 1 (RStar RDot), REol]"

text \<open>
  \<^verbatim>\<open>parseInt(text, 10)\<close> on a text that \<^verbatim>\<open>\d+\<close> has matched: the value of the decimal
  numeral.  This is the result of the code for the values below \<open>2\<^sup>5\<^sup>3\<close>; a larger value is
  rounded to a double there.
\<close>

definition parseInt :: "string \<Rightarrow> int" where
  "parseInt ds = foldl (\<lambda>n c. 10 * n + (of_char c - 48)) 0 ds"

text \<open>A capture as a string, for the captures that a successful match always sets.\<close>

definition group_text :: "(nat \<times> mstate) \<Rightarrow> nat \<Rightarrow> string" where
  "group_text m n = (case group m n of None \<Rightarrow> [] | Some t \<Rightarrow> t)"

text \<open>
  An expression that starts with \<^verbatim>\<open>^\<close> matches at the start of the text or nowhere, and
  what it captures after a literal prefix is shorter than the text.
\<close>

lemma search_RBol_later: "search (RSeq RBol r) (Some c) s i = None"
  by (induction s arbitrary: c i) (simp_all add: ms.simps)

lemma exec_RBol:
  "exec (RSeq RBol r) s =
     (case ms r (None, s, []) of [] \<Rightarrow> None | st # _ \<Rightarrow> Some (0, st))"
  by (cases s) (simp_all add: exec_def ms.simps search_RBol_later split: list.splits)

lemma exec_capture_length:
  assumes "exec (RSeq RBol r) s = Some m"
  shows "length (group_text m n) \<le> length s"
proof -
  from assms obtain st rest where m: "m = (0, st)" and st: "ms r (None, s, []) = st # rest"
    by (auto simp: exec_RBol split: list.splits)
  then have "bounded_by (None, s, []) st"
    by (intro ms_bounded [of st r]) simp
  then have "\<forall>e \<in> set (caps_of st). length (snd e) \<le> length s"
    by (simp add: bounded_by_def rest_of_def caps_of_def)
  then show ?thesis
    by (auto simp: group_text_def group_def m split: option.splits dest!: map_of_SomeD)
qed

lemma exec_prefix_capture_shorter:
  assumes "exec (RSeq RBol (RSeq (RLit (c # cs)) r)) s = Some m"
  shows "length (group_text m n) < length s"
proof -
  from assms obtain st rest where m: "m = (0, st)"
    and st: "ms (RSeq (RLit (c # cs)) r) (None, s, []) = st # rest"
    by (auto simp: exec_RBol split: list.splits)
  then have "st \<in> set (ms (RSeq (RLit (c # cs)) r) (None, s, []))"
    by simp
  then have pre: "take (length (c # cs)) s = c # cs"
    and mid: "st \<in> set (ms r (Some (last (c # cs)), drop (length (c # cs)) s, []))"
    by (auto simp: ms.simps rest_of_def caps_of_def split: if_splits)
  from pre have "length (take (length (c # cs)) s) = length (c # cs)"
    by simp
  then have len: "length (c # cs) \<le> length s"
    by simp
  from ms_bounded [OF mid]
  have "\<forall>e \<in> set (caps_of st). length (snd e) \<le> length s - length (c # cs)"
    by (simp add: bounded_by_def rest_of_def caps_of_def)
  with len show ?thesis
    by (auto simp: group_text_def group_def m split: option.splits dest!: map_of_SomeD)
qed

lemma frameRegExp_shorter:
  "exec frameRegExp line = Some m \<Longrightarrow> length (group_text m n) < length line"
  unfolding frameRegExp_def Cat_def by (simp add: exec_prefix_capture_shorter)

lemma evalLocationRegExp_shorter:
  "exec evalLocationRegExp location = Some m \<Longrightarrow> length (group_text m n) < length location"
  unfolding evalLocationRegExp_def Cat_def by (simp add: exec_prefix_capture_shorter)

lemma positionRegExp_not_longer:
  "exec positionRegExp position = Some m \<Longrightarrow> length (group_text m n) \<le> length position"
  unfolding positionRegExp_def Cat_def by (simp add: exec_capture_length)

text \<open>
  \<^verbatim>\<open>isRootedDiskPath\<close> is defined outside the given sources: it is the first parameter of
  the parser.  The object literal with the spread \<^verbatim>\<open>...location\<close> takes the location fields
  of \<open>location\<close> when there is one.
\<close>

function parseStackFrame :: "(string \<Rightarrow> bool) \<Rightarrow> string \<Rightarrow> StackFrame option"
  and parseStackFrameLocation :: "(string \<Rightarrow> bool) \<Rightarrow> string \<Rightarrow> StackFrame option" where
  "parseStackFrame isRootedDiskPath line =
     (case exec frameRegExp line of
        None \<Rightarrow> None
      | Some m0 \<Rightarrow>
          (case exec positionRegExp (group_text m0 1) of
             Some m \<Rightarrow>
               (case parseStackFrameLocation isRootedDiskPath (group_text m 6) of
                  None \<Rightarrow>
                    Some (StackFrame (map_option butlast (group m 3)) (group m 4) (group m 5)
                            None None None None
                            (Some (truthy (group m 2))) (Some (truthy (group m 1))))
                | Some location \<Rightarrow>
                    Some (StackFrame (map_option butlast (group m 3)) (group m 4) (group m 5)
                            (fileName location) (lineNumber location) (columnNumber location)
                            (evalOrigin location)
                            (Some (truthy (group m 2))) (Some (truthy (group m 1)))))
           | None \<Rightarrow>
               (case parseStackFrameLocation isRootedDiskPath (group_text m0 1) of
                  None \<Rightarrow> None
                | Some location \<Rightarrow>
                    if evalOrigin location \<noteq> None
                       \<or> (truthy (fileName location)
                           \<and> isRootedDiskPath (toString_opt (fileName location)))
                    then Some location
                    else None)))"
| "parseStackFrameLocation isRootedDiskPath location =
     (case exec evalLocationRegExp location of
        Some m \<Rightarrow>
          (case parseStackFrame isRootedDiskPath (group_text m 1) of
             None \<Rightarrow> None
           | Some origin \<Rightarrow>
               Some (StackFrame None None None None None None (Some origin) None None))
      | None \<Rightarrow>
          (case exec fileLocationRegExp location of
             Some m \<Rightarrow>
               Some (StackFrame None None None (group m 1)
                       (map_option (\<lambda>l. parseInt l - 1) (group m 2))
                       (map_option (\<lambda>l. parseInt l - 1) (group m 3))
                       None None None)
           | None \<Rightarrow> None))"
  by pat_completeness auto
termination
  apply (relation "measure (\<lambda>x. case x of Inl (r, line) \<Rightarrow> length line
                                       | Inr (r, location) \<Rightarrow> length location)")
  subgoal by simp
  subgoal by (simp add: frameRegExp_shorter)
  subgoal
    apply (frule frameRegExp_shorter [where n = 1])
    apply (frule positionRegExp_not_longer [where n = 6])
    apply simp
    done
  subgoal by (simp add: evalLocationRegExp_shorter)
  done

declare parseStackFrame.simps [simp del] parseStackFrameLocation.simps [simp del]

fun formatStackFrame :: "StackFrame \<Rightarrow> string"
  and formatLocation :: "StackFrame \<Rightarrow> string" where
  "formatStackFrame (StackFrame tn fn mn file lnum cnum origin ctor async) =
     (if truthy fn then
        ''    at ''
        @ (if async = Some True then ''async '' else if ctor = Some True then ''new '' else [])
        @ (if truthy tn then toString_opt tn @ ''.'' else [])
        @ toString_opt fn
        @ (if truthy mn then '' [as '' @ toString_opt mn @ '']'' else [])
        @ '' ('' @ formatLocation (StackFrame tn fn mn file lnum cnum origin ctor async) @ '')''
      else ''    at '' @ formatLocation (StackFrame tn fn mn file lnum cnum origin ctor async))"
| "formatLocation (StackFrame tn fn mn file lnum cnum origin ctor async) =
     (if truthy file then
        toString_opt file
        @ (case lnum of
             None \<Rightarrow> []
           | Some l \<Rightarrow>
               '':'' @ number_toString (l + 1)
               @ (case cnum of None \<Rightarrow> [] | Some c \<Rightarrow> '':'' @ number_toString (c + 1)))
      else
        (case origin of
           Some o' \<Rightarrow> ''eval at '' @ formatStackFrame o'
         | None \<Rightarrow> ''unknown location''))"

section \<open>Stack-trace filter\<close>

text \<open>
  The functions of other modules that the filter calls are fields of \<open>host\<close>:
  \<^verbatim>\<open>ts.sys.resolvePath\<close>, \<^verbatim>\<open>isRootedDiskPath\<close> and \<^verbatim>\<open>normalizeSlashes\<close>.
\<close>

record host =
  resolvePath :: "string \<Rightarrow> string"
  isRootedDiskPath :: "string \<Rightarrow> bool"
  normalizeSlashes :: "string \<Rightarrow> string"

text \<open>
  The options.  An absent \<^verbatim>\<open>stackTraceLimit\<close> is \<^verbatim>\<open>Infinity\<close>, an absent flag is false, and an
  absent \<^verbatim>\<open>rewriteFrame\<close> is \<^verbatim>\<open>filterStack.defaultRewriteFrame\<close>, the identity.  The callbacks
  are functions of the frame.
\<close>

record FilterStackOptions =
  stackTraceLimit :: "int option"
  exclude :: "(StackFrame \<Rightarrow> bool) option"
  excludeNode :: bool
  excludeTypeScript :: bool
  excludeMocha :: bool
  excludeBuiltin :: bool
  rewriteFrame :: "(StackFrame \<Rightarrow> StackFrame) option"

text \<open>An alternation of several branches, tried from left to right.\<close>

fun Alts :: "regex list \<Rightarrow> regex" where
  "Alts [] = RSet False []"
| "Alts [r] = r"
| "Alts (r # rs) = RAlt r (Alts rs)"

text \<open>\<^verbatim>\<open>[/]\<close>\<close>

definition slash :: regex where
  "slash = RSet False [One CHR ''/'']"

text \<open>\<^verbatim>\<open>/[/](node_modules|components)[/]mocha(js)?[/]|[/]mocha\.js$/\<close>\<close>

definition mochaRegExp :: regex where
  "mochaRegExp =
     RAlt (Cat [slash, RGroup 1 (RAlt (RLit ''node_modules'') (RLit ''components'')), slash,
                RLit ''mocha'', ROpt (RGroup 2 (RLit ''js'')), slash])
          (Cat [slash, RLit ''mocha.js'', REol])"

text \<open>\<^verbatim>\<open>/(timers|events|node|module)\.js$/\<close>\<close>

definition nodeRegExp :: regex where
  "nodeRegExp =
     Cat [RGroup 1 (Alts [RLit ''timers'', RLit ''events'', RLit ''node'', RLit ''module'']),
          RLit ''.js'', REol]"

text \<open>
  \<^verbatim>\<open>/([/]|^)(built[/]local|lib)[/](cancellationToken|tsc|tsserver(library)?|typescript(Services)?|typingsInstaller|watchGuard|run)\.js/\<close>
\<close>

definition typeScriptBuiltRegExp :: regex where
  "typeScriptBuiltRegExp =
     Cat [RGroup 1 (RAlt slash RBol),
          RGroup 2 (RAlt (Cat [RLit ''built'', slash, RLit ''local'']) (RLit ''lib'')),
          slash,
          RGroup 3 (Alts [RLit ''cancellationToken'', RLit ''tsc'',
                          Cat [RLit ''tsserver'', ROpt (RGroup 4 (RLit ''library''))],
                          Cat [RLit ''typescript'', ROpt (RGroup 5 (RLit ''Services''))],
                          RLit ''typingsInstaller'', RLit ''watchGuard'', RLit ''run'']),
          RLit ''.js'']"

text \<open>
  \<^verbatim>\<open>/([/]|^)src[/](compat|compiler|harness|server|services|shims|testRunner|tsc|tsserver|tsserverlibrary|typescriptServices|typingsInstaller(Core)?|watchGuard)[/]/\<close>
\<close>

definition typeScriptSrcRegExp :: regex where
  "typeScriptSrcRegExp =
     Cat [RGroup 1 (RAlt slash RBol), RLit ''src'', slash,
          RGroup 2 (Alts [RLit ''compat'', RLit ''compiler'', RLit ''harness'', RLit ''server'',
                          RLit ''services'', RLit ''shims'', RLit ''testRunner'', RLit ''tsc'',
                          RLit ''tsserver'', RLit ''tsserverlibrary'', RLit ''typescriptServices'',
                          Cat [RLit ''typingsInstaller'', ROpt (RGroup 3 (RLit ''Core''))],
                          RLit ''watchGuard'']),
          slash]"

text \<open>\<^verbatim>\<open>/\bfile:\/\/\/(.*?)(?=(:\d+)*($|\)))/\<close>\<close>

definition fileUrlRegExp :: regex where
  "fileUrlRegExp =
     Cat [RWordB, RLit ''file:///'', RGroup 1 (RLazyStar RDot),
          RLook (Cat [RStar (RGroup 2 (Cat [RLit '':'', OneOrMore digit])),
                      RGroup 3 (RAlt REol (RLit '')''))])]"

definition isMochaStackFrame :: "host \<Rightarrow> StackFrame \<Rightarrow> bool" where
  "isMochaStackFrame h frame =
     (truthy (fileName frame)
      \<and> test mochaRegExp (normalizeSlashes h (toString_opt (fileName frame))))"

definition isNodeStackFrame :: "StackFrame \<Rightarrow> bool" where
  "isNodeStackFrame frame =
     (truthy (fileName frame) \<and> test nodeRegExp (toString_opt (fileName frame)))"

definition isTypeScriptStackFrame :: "host \<Rightarrow> StackFrame \<Rightarrow> bool" where
  "isTypeScriptStackFrame h frame =
     (if truthy (fileName frame) then
        (let file = normalizeSlashes h (toString_opt (fileName frame))
         in if test typeScriptBuiltRegExp file then True
            else if test typeScriptSrcRegExp file then True
            else False)
      else False)"

definition isBuiltinStackFrame :: "StackFrame \<Rightarrow> bool" where
  "isBuiltinStackFrame frame =
     ((fileName frame = Some ''native'' \<or> fileName frame = Some ''<anonymous>'')
      \<and> truthy (functionName frame))"

text \<open>
  The first block of the loop body: the file name of a frame with a real path has its
  \<^verbatim>\<open>file:///\<close> URL resolved, and the frame goes through \<^verbatim>\<open>rewriteFrame\<close>.
\<close>

definition rewrite :: "host \<Rightarrow> FilterStackOptions \<Rightarrow> StackFrame \<Rightarrow> StackFrame" where
  "rewrite h opts frame =
     (if truthy (fileName frame) \<and> fileName frame \<noteq> Some ''native''
         \<and> fileName frame \<noteq> Some ''unknown location'' \<and> fileName frame \<noteq> Some ''<anonymous>''
      then
        (case rewriteFrame opts of None \<Rightarrow> (\<lambda>f. f) | Some f \<Rightarrow> f)
          (StackFrame (typeName frame) (functionName frame) (methodName frame)
             (Some (replace_first fileUrlRegExp (toString_opt (fileName frame))
                      (\<lambda>m. resolvePath h (group_text m 1))))
             (lineNumber frame) (columnNumber frame) (evalOrigin frame)
             (isConstructor frame) (isAsync frame))
      else frame)"

text \<open>
  The condition of the loop body, in two parts: the frame count has reached the limit, or
  one of the enabled categories or the caller's predicate matches the frame.
\<close>

definition over_limit :: "FilterStackOptions \<Rightarrow> nat \<Rightarrow> bool" where
  "over_limit opts frameCount =
     (case stackTraceLimit opts of None \<Rightarrow> False | Some limit \<Rightarrow> int frameCount \<ge> limit)"

definition category_excluded :: "host \<Rightarrow> FilterStackOptions \<Rightarrow> StackFrame \<Rightarrow> bool" where
  "category_excluded h opts frame =
     ((excludeNode opts \<and> isNodeStackFrame frame)
      \<or> (excludeMocha opts \<and> isMochaStackFrame h frame)
      \<or> (excludeTypeScript opts \<and> isTypeScriptStackFrame h frame)
      \<or> (excludeBuiltin opts \<and> isBuiltinStackFrame frame)
      \<or> (case exclude opts of None \<Rightarrow> False | Some f \<Rightarrow> f frame))"

text \<open>The local variables of one call that outlive a line.\<close>

record FilterRun =
  filtered :: "string list"
  frameCount :: nat
  lastFrameWasExcluded :: bool
  excludedFrameCount :: nat
  lastExcludedFrame :: "string option"

definition skipping_line :: "nat \<Rightarrow> string" where
  "skipping_line n =
     ''    ... skipping '' @ number_toString (int n) @ '' frame''
     @ (if n > 1 then ''s'' else []) @ '' ...''"

text \<open>One turn of \<^verbatim>\<open>for (let line of lines)\<close>.\<close>

definition filter_line :: "host \<Rightarrow> FilterStackOptions \<Rightarrow> FilterRun \<Rightarrow> string \<Rightarrow> FilterRun" where
  "filter_line h opts run line =
     (case parseStackFrame (isRootedDiskPath h) line of
        None \<Rightarrow> run\<lparr>filtered := filtered run @ [line]\<rparr>
      | Some parsed \<Rightarrow>
          (let frame = rewrite h opts parsed
           in if over_limit opts (frameCount run) \<or> category_excluded h opts frame then
                if lastFrameWasExcluded run
                then run\<lparr>excludedFrameCount := Suc (excludedFrameCount run),
                         lastExcludedFrame := Some (formatStackFrame frame)\<rparr>
                else run\<lparr>lastFrameWasExcluded := True,
                         frameCount := Suc (frameCount run),
                         filtered := filtered run @ [formatStackFrame frame]\<rparr>
              else
                (if excludedFrameCount run > 0
                 then run\<lparr>filtered := filtered run @ [skipping_line (excludedFrameCount run),
                                                       formatStackFrame frame],
                          excludedFrameCount := 0,
                          lastFrameWasExcluded := False,
                          frameCount := Suc (frameCount run)\<rparr>
                 else run\<lparr>filtered := filtered run @ [formatStackFrame frame],
                          lastFrameWasExcluded := False,
                          frameCount := Suc (frameCount run)\<rparr>)))"

text \<open>What follows the loop: the summary of a run of excluded frames that ends the input.\<close>

definition finish :: "FilterRun \<Rightarrow> string list" where
  "finish run =
     (if excludedFrameCount run > 0 then
        filtered run
        @ (if excludedFrameCount run - 1 > 0 then [skipping_line (excludedFrameCount run - 1)]
           else [])
        @ (if truthy (lastExcludedFrame run) then [toString_opt (lastExcludedFrame run)]
           else [])
      else filtered run)"

definition filter_lines :: "host \<Rightarrow> FilterStackOptions \<Rightarrow> string list \<Rightarrow> string list" where
  "filter_lines h opts lines =
     finish (foldl (filter_line h opts)
               \<lparr>filtered = [], frameCount = 0, lastFrameWasExcluded = False,
                excludedFrameCount = 0, lastExcludedFrame = None\<rparr> lines)"

text \<open>\<^verbatim>\<open>stack.split(/\r\n?|\n/g)\<close> and \<^verbatim>\<open>filtered.join("\n")\<close>.\<close>

fun split_lines :: "string \<Rightarrow> string list" where
  "split_lines [] = [[]]"
| "split_lines [c] = (if c = CHR 0x0D \<or> c = CHR 0x0A then [[], []] else [[c]])"
| "split_lines (c # d # s) =
     (if c = CHR 0x0D \<and> d = CHR 0x0A then [] # split_lines s
      else if c = CHR 0x0D \<or> c = CHR 0x0A then [] # split_lines (d # s)
      else (case split_lines (d # s) of [] \<Rightarrow> [[c]] | l # ls \<Rightarrow> (c # l) # ls))"

fun join_lines :: "string list \<Rightarrow> string" where
  "join_lines [] = []"
| "join_lines [l] = l"
| "join_lines (l # ls) = l @ [CHR 0x0A] @ join_lines ls"

text \<open>
  The argument of \<^verbatim>\<open>filterStack\<close> is a string or a reference to an error object.  Objects
  live in a store; an error object has its \<^verbatim>\<open>stack\<close> and its other properties.
\<close>

record ErrorLike =
  stack :: "string option"
  properties :: "string \<rightharpoonup> js_value"

type_synonym store = "nat \<rightharpoonup> ErrorLike"

datatype error_or_string = StackText string | ErrorObject nat

definition filterStack ::
  "host \<Rightarrow> error_or_string \<Rightarrow> FilterStackOptions \<Rightarrow> store \<Rightarrow> error_or_string \<times> store" where
  "filterStack h error_arg opts objects =
     (let stack_text = (case error_arg of
                          StackText s \<Rightarrow> Some s
                        | ErrorObject a \<Rightarrow> (case objects a of None \<Rightarrow> None | Some e \<Rightarrow> stack e))
      in if truthy stack_text then
           (let joined = join_lines (filter_lines h opts (split_lines (toString_opt stack_text)))
            in case error_arg of
                 StackText s \<Rightarrow> (StackText joined, objects)
               | ErrorObject a \<Rightarrow>
                   (ErrorObject a,
                    objects(a := map_option (\<lambda>e. e\<lparr>stack := Some joined\<rparr>) (objects a))))
         else (error_arg, objects))"

text \<open>
  What the loop does with one line, named for the theorems: the text it emits for the line
  when it emits it, and whether the line is a frame that the options exclude, or keep, when
  \<open>count\<close> frames have been counted.
\<close>

definition reformat :: "host \<Rightarrow> FilterStackOptions \<Rightarrow> string \<Rightarrow> string" where
  "reformat h opts line =
     (case parseStackFrame (isRootedDiskPath h) line of
        None \<Rightarrow> line
      | Some parsed \<Rightarrow> formatStackFrame (rewrite h opts parsed))"

definition line_excluded :: "host \<Rightarrow> FilterStackOptions \<Rightarrow> nat \<Rightarrow> string \<Rightarrow> bool" where
  "line_excluded h opts count line =
     (case parseStackFrame (isRootedDiskPath h) line of
        None \<Rightarrow> False
      | Some parsed \<Rightarrow> over_limit opts count \<or> category_excluded h opts (rewrite h opts parsed))"

definition line_kept :: "host \<Rightarrow> FilterStackOptions \<Rightarrow> nat \<Rightarrow> string \<Rightarrow> bool" where
  "line_kept h opts count line =
     (case parseStackFrame (isRootedDiskPath h) line of
        None \<Rightarrow> False
      | Some parsed \<Rightarrow>
          \<not> (over_limit opts count \<or> category_excluded h opts (rewrite h opts parsed)))"

text \<open>A host and options for the examples: paths are rooted when they start with a slash.\<close>

definition example_host :: host where
  "example_host =
     \<lparr>resolvePath = (\<lambda>p. p), isRootedDiskPath = (\<lambda>p. take 1 p = ''/''),
      normalizeSlashes = (\<lambda>p. p)\<rparr>"

definition exclude_node :: FilterStackOptions where
  "exclude_node =
     \<lparr>stackTraceLimit = None, exclude = None, excludeNode = True, excludeTypeScript = False,
      excludeMocha = False, excludeBuiltin = False, rewriteFrame = None\<rparr>"

text \<open>
  A line is stable under the options when it is not a frame, or when the text the filter
  emits for it is again a frame that the filter emits as the same text and that the
  categories and the caller's predicate judge as they judged the original.
\<close>

definition stable_line :: "host \<Rightarrow> FilterStackOptions \<Rightarrow> string \<Rightarrow> bool" where
  "stable_line h opts line =
     (case parseStackFrame (isRootedDiskPath h) line of
        None \<Rightarrow> True
      | Some parsed \<Rightarrow>
          (case parseStackFrame (isRootedDiskPath h) (formatStackFrame (rewrite h opts parsed)) of
             None \<Rightarrow> False
           | Some again \<Rightarrow>
               formatStackFrame (rewrite h opts again) = formatStackFrame (rewrite h opts parsed)
               \<and> category_excluded h opts (rewrite h opts again)
                   = category_excluded h opts (rewrite h opts parsed)))"

text \<open>The state of the loop before the first line.\<close>

definition initial_run :: FilterRun where
  "initial_run =
     \<lparr>filtered = [], frameCount = 0, lastFrameWasExcluded = False, excludedFrameCount = 0,
      lastExcludedFrame = None\<rparr>"

section \<open>Theorems: stack-trace filter\<close>

text \<open>The equations that evaluate the expressions, the parser and the filter on a given text.\<close>

lemmas regex_eval =
  ms.simps Cat_def OneOrMore_def exec_def test_def replace_first_def rest_of_def caps_of_def
  line_terminator_def word_char_def group_def group_text_def digit_def slash_def
  frameRegExp_def positionRegExp_def fileLocationRegExp_def evalLocationRegExp_def
  nodeRegExp_def mochaRegExp_def typeScriptBuiltRegExp_def typeScriptSrcRegExp_def
  fileUrlRegExp_def parseInt_def

lemmas frame_eval =
  parseStackFrame.simps parseStackFrameLocation.simps truthy_def toString_opt_def
  number_toString_def string_of_nat_digit digit_char_def

lemmas filter_eval =
  filterStack_def filter_lines_def filter_line_def finish_def rewrite_def over_limit_def
  category_excluded_def isNodeStackFrame_def isMochaStackFrame_def isTypeScriptStackFrame_def
  isBuiltinStackFrame_def skipping_line_def example_host_def exclude_node_def

subsection \<open>What a match has consumed\<close>

text \<open>
  What a successful match has consumed.  A match of an expression without groups leaves the
  captures as they are; a group adds the text its expression has consumed.
\<close>

fun groupless :: "regex \<Rightarrow> bool" where
  "groupless (RGroup n r) = False"
| "groupless (RSeq r1 r2) = (groupless r1 \<and> groupless r2)"
| "groupless (RAlt r1 r2) = (groupless r1 \<and> groupless r2)"
| "groupless (ROpt r) = groupless r"
| "groupless (RStar r) = groupless r"
| "groupless (RLazyStar r) = groupless r"
| "groupless (RLook r) = groupless r"
| "groupless (RNegLook r) = groupless r"
| "groupless r = True"

definition opt_text :: "string option \<Rightarrow> string" where
  "opt_text v = (case v of None \<Rightarrow> [] | Some t \<Rightarrow> t)"

definition opt_cap :: "nat \<Rightarrow> string option \<Rightarrow> captures" where
  "opt_cap n v = (case v of None \<Rightarrow> [] | Some t \<Rightarrow> [(n, t)])"

lemma map_of_opt_cap:
  "map_of (opt_cap n v @ caps) k = (if k = n \<and> v \<noteq> None then v else map_of caps k)"
  by (cases v) (simp_all add: opt_cap_def)

lemma map_of_opt_cap_end: "map_of (opt_cap n v) k = (if k = n then v else None)"
  by (cases v) (simp_all add: opt_cap_def)

lemma exec_RBol_member:
  "exec (RSeq RBol r) s = Some m \<Longrightarrow> \<exists>st. m = (0, st) \<and> st \<in> set (ms r (None, s, []))"
  by (auto simp: exec_RBol split: list.splits)

lemma in_RSeq:
  "st' \<in> set (ms (RSeq r1 r2) st) \<Longrightarrow> \<exists>mid \<in> set (ms r1 st). st' \<in> set (ms r2 mid)"
  by (simp add: ms.simps)

lemma in_ROpt: "st' \<in> set (ms (ROpt r) st) \<Longrightarrow> st' \<in> set (ms r st) \<or> st' = st"
  by (auto simp: ms.simps)

lemma in_RAlt:
  "st' \<in> set (ms (RAlt r1 r2) st) \<Longrightarrow> st' \<in> set (ms r1 st) \<or> st' \<in> set (ms r2 st)"
  by (simp add: ms.simps)

lemma in_REol: "st' \<in> set (ms REol st) \<Longrightarrow> st' = st \<and> rest_of st = []"
  by (auto simp: ms.simps split: list.splits)

lemma in_RLit:
  assumes "st' \<in> set (ms (RLit l) st)"
  shows "rest_of st = l @ rest_of st' \<and> caps_of st' = caps_of st"
proof -
  from assms have "take (length l) (rest_of st) = l"
    and "rest_of st' = drop (length l) (rest_of st)" and "caps_of st' = caps_of st"
    by (auto simp: ms.simps rest_of_def caps_of_def split: if_splits)
  then show ?thesis
    by (metis append_take_drop_id)
qed

lemma in_RSet:
  assumes "st' \<in> set (ms (RSet negated items) st)"
  shows "\<exists>c. rest_of st = c # rest_of st' \<and> (list_ex (in_item c) items \<noteq> negated)
           \<and> caps_of st' = caps_of st"
  using assms by (cases st) (auto simp: ms.simps rest_of_def caps_of_def split: list.splits if_splits)

lemma in_RDot:
  assumes "st' \<in> set (ms RDot st)"
  shows "\<exists>c. rest_of st = c # rest_of st' \<and> \<not> line_terminator c \<and> caps_of st' = caps_of st"
  using assms by (cases st) (auto simp: ms.simps rest_of_def caps_of_def split: list.splits if_splits)

lemma in_RStar:
  assumes "st' \<in> set (ms (RStar r) st)"
  shows "st' = st \<or> (\<exists>mid \<in> set (ms r st). length (rest_of mid) < length (rest_of st)
                      \<and> st' \<in> set (ms (RStar r) mid))"
proof -
  from assms have "st' \<in> set (concat (map (\<lambda>st'. if length (rest_of st') < length (rest_of st)
                                                   then ms (RStar r) st' else []) (ms r st)) @ [st])"
    by (subst (asm) ms.simps(7))
  then show ?thesis
    by (auto split: if_splits)
qed

lemma in_RLazyStar:
  assumes "st' \<in> set (ms (RLazyStar r) st)"
  shows "st' = st \<or> (\<exists>mid \<in> set (ms r st). length (rest_of mid) < length (rest_of st)
                      \<and> st' \<in> set (ms (RLazyStar r) mid))"
proof -
  from assms have "st' \<in> set (st # concat (map (\<lambda>st'. if length (rest_of st') < length (rest_of st)
                                                   then ms (RLazyStar r) st' else []) (ms r st)))"
    by (subst (asm) ms.simps(8))
  then show ?thesis
    by (auto split: if_splits)
qed

lemma in_RGroup:
  assumes "st' \<in> set (ms (RGroup n r) st)"
  shows "\<exists>mid \<in> set (ms r st). fst st' = fst mid \<and> rest_of st' = rest_of mid
           \<and> caps_of st' = (n, take (length (rest_of st) - length (rest_of mid)) (rest_of st))
                             # caps_of mid"
proof -
  from assms obtain mid where mid: "mid \<in> set (ms r st)"
    and st': "st' = (fst mid, rest_of mid,
                     (n, take (length (rest_of st) - length (rest_of mid)) (rest_of st)) # caps_of mid)"
    by (auto simp: ms.simps)
  from st' have "fst st' = fst mid" "rest_of st' = rest_of mid"
    "caps_of st' = (n, take (length (rest_of st) - length (rest_of mid)) (rest_of st)) # caps_of mid"
    by (simp_all add: rest_of_def caps_of_def)
  with mid show ?thesis
    by blast
qed

lemma consumed_prefix:
  assumes "st' \<in> set (ms r st)"
  shows "\<exists>t. rest_of st = t @ rest_of st'"
  using assms
proof (induction r st arbitrary: st' rule: ms.induct)
  case (1 s st)
  then show ?case
    by (blast dest: in_RLit)
next
  case (2 st)
  from in_RDot [OF 2] show ?case
    by (metis append_Cons append_Nil)
next
  case (3 negated items st)
  from in_RSet [OF 3] show ?case
    by (metis append_Cons append_Nil)
next
  case (4 r1 r2 st)
  from in_RSeq [OF 4(3)] obtain mid where mid: "mid \<in> set (ms r1 st)" and st': "st' \<in> set (ms r2 mid)"
    by blast
  from 4(1) [OF mid] 4(2) [OF mid st'] show ?case
    by (metis append.assoc)
next
  case (5 r1 r2 st)
  from in_RAlt [OF 5(3)] 5(1) 5(2) show ?case
    by blast
next
  case (6 r st)
  from in_ROpt [OF 6(2)] 6(1) show ?case
    by (metis append_Nil)
next
  case (7 r st)
  from in_RStar [OF 7(3)] consider "st' = st"
    | mid where "mid \<in> set (ms r st)" "length (rest_of mid) < length (rest_of st)"
        "st' \<in> set (ms (RStar r) mid)"
    by blast
  then show ?case
  proof cases
    case 1
    then show ?thesis by simp
  next
    case 2
    from 7(1) [OF 2(1)] 7(2) [OF 2(1) 2(2) 2(3)] show ?thesis
      by (metis append.assoc)
  qed
next
  case (8 r st)
  from in_RLazyStar [OF 8(3)] consider "st' = st"
    | mid where "mid \<in> set (ms r st)" "length (rest_of mid) < length (rest_of st)"
        "st' \<in> set (ms (RLazyStar r) mid)"
    by blast
  then show ?case
  proof cases
    case 1
    then show ?thesis by simp
  next
    case 2
    from 8(1) [OF 2(1)] 8(2) [OF 2(1) 2(2) 2(3)] show ?thesis
      by (metis append.assoc)
  qed
next
  case (9 n r st)
  from in_RGroup [OF 9(2)] obtain mid where mid: "mid \<in> set (ms r st)"
    and "rest_of st' = rest_of mid"
    by blast
  with 9(1) [OF mid] show ?case by simp
next
  case (10 r st)
  then have "rest_of st' = rest_of st"
    by (cases "ms r st") (auto simp: ms.simps rest_of_def)
  then show ?case by simp
next
  case (11 r st)
  then have "st' = st"
    by (auto simp: ms.simps split: list.splits)
  then show ?case by simp
next
  case (12 st)
  then have "st' = st"
    by (auto simp: ms.simps split: option.splits)
  then show ?case by simp
next
  case (13 st)
  then have "st' = st"
    by (auto simp: ms.simps split: list.splits)
  then show ?case by simp
next
  case (14 st)
  then have "st' = st"
    by (auto simp: ms.simps split: if_splits)
  then show ?case by simp
qed

lemma groupless_caps:
  assumes "st' \<in> set (ms r st)" and "groupless r"
  shows "caps_of st' = caps_of st"
  using assms
proof (induction r st arbitrary: st' rule: ms.induct)
  case (1 s st)
  then show ?case
    by (blast dest: in_RLit)
next
  case (2 st)
  from in_RDot [OF 2(1)] show ?case
    by blast
next
  case (3 negated items st)
  from in_RSet [OF 3(1)] show ?case
    by blast
next
  case (4 r1 r2 st)
  from in_RSeq [OF 4(3)] obtain mid where mid: "mid \<in> set (ms r1 st)" and st': "st' \<in> set (ms r2 mid)"
    by blast
  from 4(4) have g: "groupless r1" "groupless r2"
    by simp_all
  from 4(1) [OF mid g(1)] 4(2) [OF mid st' g(2)] show ?case
    by simp
next
  case (5 r1 r2 st)
  from 5(4) have g: "groupless r1" "groupless r2"
    by simp_all
  from in_RAlt [OF 5(3)] 5(1) [OF _ g(1)] 5(2) [OF _ g(2)] show ?case
    by blast
next
  case (6 r st)
  from 6(3) have g: "groupless r"
    by simp
  from in_ROpt [OF 6(2)] 6(1) [OF _ g] show ?case
    by blast
next
  case (7 r st)
  from in_RStar [OF 7(3)] consider "st' = st"
    | mid where "mid \<in> set (ms r st)" "length (rest_of mid) < length (rest_of st)"
        "st' \<in> set (ms (RStar r) mid)"
    by blast
  then show ?case
  proof cases
    case 1
    then show ?thesis by simp
  next
    case 2
    from 7(4) have g: "groupless r"
      by simp
    from 7(1) [OF 2(1) g] 7(2) [OF 2(1) 2(2) 2(3) 7(4)] show ?thesis
      by simp
  qed
next
  case (8 r st)
  from in_RLazyStar [OF 8(3)] consider "st' = st"
    | mid where "mid \<in> set (ms r st)" "length (rest_of mid) < length (rest_of st)"
        "st' \<in> set (ms (RLazyStar r) mid)"
    by blast
  then show ?case
  proof cases
    case 1
    then show ?thesis by simp
  next
    case 2
    from 8(4) have g: "groupless r"
      by simp
    from 8(1) [OF 2(1) g] 8(2) [OF 2(1) 2(2) 2(3) 8(4)] show ?thesis
      by simp
  qed
next
  case (9 n r st)
  then show ?case by simp
next
  case (10 r st)
  from 10(2) obtain mid where "mid \<in> set (ms r st)" "caps_of st' = caps_of mid"
    by (cases "ms r st") (auto simp: ms.simps caps_of_def)
  moreover from 10(3) have "groupless r"
    by simp
  ultimately show ?case
    using 10(1) by simp
next
  case (11 r st)
  then have "st' = st"
    by (auto simp: ms.simps split: list.splits)
  then show ?case by simp
next
  case (12 st)
  then have "st' = st"
    by (auto simp: ms.simps split: option.splits)
  then show ?case by simp
next
  case (13 st)
  then have "st' = st"
    by (auto simp: ms.simps split: list.splits)
  then show ?case by simp
next
  case (14 st)
  then have "st' = st"
    by (auto simp: ms.simps split: if_splits)
  then show ?case by simp
qed

text \<open>The text of a group whose expression has no group of its own.\<close>

lemma in_group:
  assumes "st' \<in> set (ms (RGroup n r) st)" and "groupless r"
  shows "\<exists>t. rest_of st = t @ rest_of st' \<and> caps_of st' = (n, t) # caps_of st
           \<and> (fst st', rest_of st', caps_of st) \<in> set (ms r st)"
proof -
  from in_RGroup [OF assms(1)] obtain mid where mid: "mid \<in> set (ms r st)"
    and same: "fst st' = fst mid" "rest_of st' = rest_of mid"
    and caps: "caps_of st' = (n, take (length (rest_of st) - length (rest_of mid)) (rest_of st))
                               # caps_of mid"
    by blast
  from consumed_prefix [OF mid] obtain t where t: "rest_of st = t @ rest_of mid"
    by blast
  from groupless_caps [OF mid assms(2)] have unchanged: "caps_of mid = caps_of st" .
  have "mid = (fst mid, rest_of mid, caps_of mid)"
    by (simp add: rest_of_def caps_of_def)
  with mid same unchanged have "(fst st', rest_of st', caps_of st) \<in> set (ms r st)"
    by simp
  with t caps same unchanged show ?thesis
    by (intro exI [of _ t]) simp
qed

lemma in_optional_group:
  assumes "st' \<in> set (ms (ROpt (RGroup n r)) st)" and "groupless r"
  shows "\<exists>v. rest_of st = opt_text v @ rest_of st' \<and> caps_of st' = opt_cap n v @ caps_of st
           \<and> (\<forall>t. v = Some t \<longrightarrow> (fst st', rest_of st', caps_of st) \<in> set (ms r st))"
proof -
  from in_ROpt [OF assms(1)] consider "st' \<in> set (ms (RGroup n r) st)" | "st' = st"
    by blast
  then show ?thesis
  proof cases
    case 1
    from in_group [OF this assms(2)] obtain t where "rest_of st = t @ rest_of st'"
      "caps_of st' = (n, t) # caps_of st" "(fst st', rest_of st', caps_of st) \<in> set (ms r st)"
      by blast
    then show ?thesis
      by (intro exI [of _ "Some t"]) (simp add: opt_text_def opt_cap_def)
  next
    case 2
    then show ?thesis
      by (intro exI [of _ None]) (simp add: opt_text_def opt_cap_def)
  qed
qed

text \<open>Stars and repetitions of a character class.\<close>

lemma in_class_star:
  "st' \<in> set (ms (RStar (RSet negated items)) st) \<Longrightarrow>
   \<exists>w. rest_of st = w @ rest_of st' \<and> (\<forall>c \<in> set w. list_ex (in_item c) items \<noteq> negated)"
proof (induction "length (rest_of st)" arbitrary: st rule: less_induct)
  case less
  from in_RStar [OF less.prems] consider "st' = st"
    | mid where "mid \<in> set (ms (RSet negated items) st)"
        "length (rest_of mid) < length (rest_of st)"
        "st' \<in> set (ms (RStar (RSet negated items)) mid)"
    by blast
  then show ?case
  proof cases
    case 1
    then show ?thesis by simp
  next
    case 2
    from in_RSet [OF 2(1)] obtain c where c: "rest_of st = c # rest_of mid"
      "list_ex (in_item c) items \<noteq> negated"
      by blast
    from less.hyps [OF 2(2) 2(3)] obtain w where "rest_of mid = w @ rest_of st'"
      "\<forall>c \<in> set w. list_ex (in_item c) items \<noteq> negated"
      by blast
    with c show ?thesis
      by (intro exI [of _ "c # w"]) simp
  qed
qed

lemma in_class_plus:
  assumes "st' \<in> set (ms (OneOrMore (RSet negated items)) st)"
  shows "\<exists>w. rest_of st = w @ rest_of st' \<and> w \<noteq> []
           \<and> (\<forall>c \<in> set w. list_ex (in_item c) items \<noteq> negated)"
proof -
  from assms obtain mid where mid: "mid \<in> set (ms (RSet negated items) st)"
    and star: "st' \<in> set (ms (RStar (RSet negated items)) mid)"
    unfolding OneOrMore_def by (blast dest: in_RSeq)
  from in_RSet [OF mid] obtain c where c: "rest_of st = c # rest_of mid"
    "list_ex (in_item c) items \<noteq> negated"
    by blast
  from in_class_star [OF star] obtain w where "rest_of mid = w @ rest_of st'"
    "\<forall>c \<in> set w. list_ex (in_item c) items \<noteq> negated"
    by blast
  with c show ?thesis
    by (intro exI [of _ "c # w"]) simp
qed

text \<open>
  The parts of \<^verbatim>\<open>positionRegExp\<close>: the type name \<^verbatim>\<open>(?:[^.]+\.)+\<close>, the function name
  \<^verbatim>\<open>(?:(?! [\[(]).)*\<close> and the method name \<^verbatim>\<open>[^\]]+\<close>.
\<close>

definition segmentRegExp :: regex where
  "segmentRegExp = Cat [OneOrMore (RSet True [One CHR ''.'']), RLit ''.'']"

definition typeNameRegExp :: regex where
  "typeNameRegExp = OneOrMore segmentRegExp"

definition functionNameRegExp :: regex where
  "functionNameRegExp =
     RStar (Cat [RNegLook (Cat [RLit '' '', RSet False [One CHR ''['', One CHR ''('']]), RDot])"

definition methodNameRegExp :: regex where
  "methodNameRegExp = OneOrMore (RSet True [One CHR '']''])"

definition method_text :: "string option \<Rightarrow> string" where
  "method_text v = (case v of None \<Rightarrow> [] | Some t \<Rightarrow> '' [as '' @ t @ '']'')"

lemma positionRegExp_parts:
  "positionRegExp =
     RSeq RBol
       (RSeq (ROpt (RGroup 1 (RLit ''async '')))
       (RSeq (ROpt (RGroup 2 (RLit ''new '')))
       (RSeq (ROpt (RGroup 3 typeNameRegExp))
       (RSeq (RGroup 4 functionNameRegExp)
       (RSeq (ROpt (RSeq (RLit '' [as '') (RSeq (RGroup 5 methodNameRegExp) (RSeq (RLit '']'') (RLit [])))))
       (RSeq (RLit '' ('')
       (RSeq (RGroup 6 (RStar RDot))
       (RSeq (RLit '')'')
       (RSeq REol (RLit []))))))))))"
  by (simp add: positionRegExp_def typeNameRegExp_def segmentRegExp_def functionNameRegExp_def
        methodNameRegExp_def Cat_def)

lemma groupless_parts:
  "groupless typeNameRegExp" "groupless functionNameRegExp" "groupless methodNameRegExp"
  by (simp_all add: typeNameRegExp_def segmentRegExp_def functionNameRegExp_def
        methodNameRegExp_def Cat_def OneOrMore_def)

lemma in_segment:
  assumes "st' \<in> set (ms segmentRegExp st)"
  shows "\<exists>w. w \<noteq> [] \<and> rest_of st = w @ ''.'' @ rest_of st'"
proof -
  from assms obtain a b where a: "a \<in> set (ms (OneOrMore (RSet True [One CHR ''.''])) st)"
    and b: "b \<in> set (ms (RLit ''.'') a)" and c: "st' \<in> set (ms (RLit []) b)"
    unfolding segmentRegExp_def Cat_def by (auto dest!: in_RSeq)
  from in_class_plus [OF a] obtain w where "rest_of st = w @ rest_of a" "w \<noteq> []"
    by blast
  moreover from in_RLit [OF b] in_RLit [OF c] have "rest_of a = ''.'' @ rest_of st'"
    by simp
  ultimately show ?thesis
    by (intro exI [of _ w]) simp
qed

lemma in_segments:
  "st' \<in> set (ms (RStar segmentRegExp) st) \<Longrightarrow>
   \<exists>t. rest_of st = t @ rest_of st' \<and> (t = [] \<or> last t = CHR ''.'')"
proof (induction "length (rest_of st)" arbitrary: st rule: less_induct)
  case less
  from in_RStar [OF less.prems] consider "st' = st"
    | mid where "mid \<in> set (ms segmentRegExp st)" "length (rest_of mid) < length (rest_of st)"
        "st' \<in> set (ms (RStar segmentRegExp) mid)"
    by blast
  then show ?case
  proof cases
    case 1
    then show ?thesis by simp
  next
    case 2
    from in_segment [OF 2(1)] obtain w where w: "rest_of st = w @ ''.'' @ rest_of mid"
      by blast
    from less.hyps [OF 2(2) 2(3)] obtain t where t: "rest_of mid = t @ rest_of st'"
      "t = [] \<or> last t = CHR ''.''"
      by blast
    from w t(1) have "rest_of st = (w @ ''.'' @ t) @ rest_of st'"
      by simp
    moreover from t(2) have "last (w @ ''.'' @ t) = CHR ''.''"
      by auto
    ultimately show ?thesis
      by blast
  qed
qed

lemma in_typeName:
  assumes "st' \<in> set (ms typeNameRegExp st)"
  shows "\<exists>T. T \<noteq> [] \<and> rest_of st = (T @ ''.'') @ rest_of st'"
proof -
  from assms obtain mid where mid: "mid \<in> set (ms segmentRegExp st)"
    and star: "st' \<in> set (ms (RStar segmentRegExp) mid)"
    unfolding typeNameRegExp_def OneOrMore_def by (blast dest: in_RSeq)
  from in_segment [OF mid] obtain w where w: "w \<noteq> []" "rest_of st = w @ ''.'' @ rest_of mid"
    by blast
  from in_segments [OF star] obtain t where t: "rest_of mid = t @ rest_of st'"
    "t = [] \<or> last t = CHR ''.''"
    by blast
  show ?thesis
  proof (cases "t = []")
    case True
    with w t show ?thesis
      by (intro exI [of _ w]) simp
  next
    case False
    with t(2) have "t = butlast t @ ''.''"
      by (metis append_butlast_last_id)
    with w t(1) have "rest_of st = ((w @ ''.'' @ butlast t) @ ''.'') @ rest_of st'"
      by (metis append.assoc)
    with w(1) show ?thesis
      by (intro exI [of _ "w @ ''.'' @ butlast t"]) simp
  qed
qed

lemma in_method:
  assumes "st' \<in> set (ms (ROpt (RSeq (RLit '' [as '')
                               (RSeq (RGroup 5 methodNameRegExp) (RSeq (RLit '']'') (RLit []))))) st)"
  shows "\<exists>v. rest_of st = method_text v @ rest_of st' \<and> caps_of st' = opt_cap 5 v @ caps_of st
           \<and> v \<noteq> Some []"
proof -
  from in_ROpt [OF assms] consider "st' = st"
    | "st' \<in> set (ms (RSeq (RLit '' [as '')
                        (RSeq (RGroup 5 methodNameRegExp) (RSeq (RLit '']'') (RLit [])))) st)"
    by blast
  then show ?thesis
  proof cases
    case 1
    then show ?thesis
      by (intro exI [of _ None]) (simp add: method_text_def opt_cap_def)
  next
    case 2
    then obtain a b c where a: "a \<in> set (ms (RLit '' [as '') st)"
      and b: "b \<in> set (ms (RGroup 5 methodNameRegExp) a)"
      and c: "c \<in> set (ms (RLit '']'') b)" and d: "st' \<in> set (ms (RLit []) c)"
      by (auto dest!: in_RSeq)
    from in_group [OF b groupless_parts(3)] obtain t where t: "rest_of a = t @ rest_of b"
      "caps_of b = (5, t) # caps_of a" "(fst b, rest_of b, caps_of a) \<in> set (ms methodNameRegExp a)"
      by blast
    from in_class_plus [OF t(3) [unfolded methodNameRegExp_def]] t(1) have "t \<noteq> []"
      by (auto simp: rest_of_def)
    moreover from in_RLit [OF a] in_RLit [OF c] in_RLit [OF d] t(1,2)
    have "rest_of st = '' [as '' @ t @ '']'' @ rest_of st'" "caps_of st' = (5, t) # caps_of st"
      by simp_all
    ultimately show ?thesis
      by (intro exI [of _ "Some t"]) (simp add: method_text_def opt_cap_def)
  qed
qed

text \<open>A match of \<^verbatim>\<open>positionRegExp\<close> splits the position into its captures.\<close>

lemma positionRegExp_match:
  assumes "exec positionRegExp position = Some m"
  shows "position = opt_text (group m 1) @ opt_text (group m 2) @ opt_text (group m 3)
           @ group_text m 4 @ method_text (group m 5) @ '' ('' @ group_text m 6 @ '')''"
    and "group m 1 = None \<or> group m 1 = Some ''async ''"
    and "group m 2 = None \<or> group m 2 = Some ''new ''"
    and "\<forall>t. group m 3 = Some t \<longrightarrow> (\<exists>T. T \<noteq> [] \<and> t = T @ ''.'')"
    and "group m 4 \<noteq> None"
    and "group m 5 \<noteq> Some []"
    and "group m 6 \<noteq> None"
proof -
  let ?s0 = "(None, position, []) :: mstate"
  from exec_RBol_member [OF assms [unfolded positionRegExp_parts]]
  obtain st where m: "m = (0, st)" and "st \<in> set (ms
       (RSeq (ROpt (RGroup 1 (RLit ''async '')))
       (RSeq (ROpt (RGroup 2 (RLit ''new '')))
       (RSeq (ROpt (RGroup 3 typeNameRegExp))
       (RSeq (RGroup 4 functionNameRegExp)
       (RSeq (ROpt (RSeq (RLit '' [as '') (RSeq (RGroup 5 methodNameRegExp) (RSeq (RLit '']'') (RLit [])))))
       (RSeq (RLit '' ('')
       (RSeq (RGroup 6 (RStar RDot))
       (RSeq (RLit '')'')
       (RSeq REol (RLit [])))))))))) ?s0)"
    by blast
  then obtain s1 s2 s3 s4 s5 s6 s7 s8 s9 where
        s1: "s1 \<in> set (ms (ROpt (RGroup 1 (RLit ''async ''))) ?s0)"
    and s2: "s2 \<in> set (ms (ROpt (RGroup 2 (RLit ''new ''))) s1)"
    and s3: "s3 \<in> set (ms (ROpt (RGroup 3 typeNameRegExp)) s2)"
    and s4: "s4 \<in> set (ms (RGroup 4 functionNameRegExp) s3)"
    and s5: "s5 \<in> set (ms (ROpt (RSeq (RLit '' [as '')
                    (RSeq (RGroup 5 methodNameRegExp) (RSeq (RLit '']'') (RLit []))))) s4)"
    and s6: "s6 \<in> set (ms (RLit '' ('') s5)"
    and s7: "s7 \<in> set (ms (RGroup 6 (RStar RDot)) s6)"
    and s8: "s8 \<in> set (ms (RLit '')'') s7)"
    and s9: "s9 \<in> set (ms REol s8)"
    and st: "st \<in> set (ms (RLit []) s9)"
    by (auto dest!: in_RSeq)
  from in_optional_group [OF s1] obtain v1 where v1:
    "position = opt_text v1 @ rest_of s1" "caps_of s1 = opt_cap 1 v1"
    "\<forall>t. v1 = Some t \<longrightarrow> (fst s1, rest_of s1, []) \<in> set (ms (RLit ''async '') ?s0)"
    by (auto simp: rest_of_def caps_of_def)
  from in_optional_group [OF s2] obtain v2 where v2:
    "rest_of s1 = opt_text v2 @ rest_of s2" "caps_of s2 = opt_cap 2 v2 @ caps_of s1"
    "\<forall>t. v2 = Some t \<longrightarrow> (fst s2, rest_of s2, caps_of s1) \<in> set (ms (RLit ''new '') s1)"
    by auto
  from in_optional_group [OF s3 groupless_parts(1)] obtain v3 where v3:
    "rest_of s2 = opt_text v3 @ rest_of s3" "caps_of s3 = opt_cap 3 v3 @ caps_of s2"
    "\<forall>t. v3 = Some t \<longrightarrow> (fst s3, rest_of s3, caps_of s2) \<in> set (ms typeNameRegExp s2)"
    by auto
  from in_group [OF s4 groupless_parts(2)] obtain g4 where g4:
    "rest_of s3 = g4 @ rest_of s4" "caps_of s4 = (4, g4) # caps_of s3"
    by blast
  from in_method [OF s5] obtain v5 where v5:
    "rest_of s4 = method_text v5 @ rest_of s5" "caps_of s5 = opt_cap 5 v5 @ caps_of s4"
    "v5 \<noteq> Some []"
    by blast
  from in_group [OF s7] obtain g6 where g6:
    "rest_of s6 = g6 @ rest_of s7" "caps_of s7 = (6, g6) # caps_of s6"
    by auto
  from in_RLit [OF s6] in_RLit [OF s8] in_REol [OF s9] in_RLit [OF st]
  have tail: "rest_of s5 = '' ('' @ rest_of s6" "caps_of s6 = caps_of s5"
    "rest_of s7 = '')''" "caps_of st = caps_of s7"
    by simp_all
  have caps: "caps_of st = (6, g6) # opt_cap 5 v5 @ (4, g4) # opt_cap 3 v3 @ opt_cap 2 v2 @ opt_cap 1 v1 @ []"
    using v1(2) v2(2) v3(2) g4(2) v5(2) g6(2) tail(2,4) by simp
  have groups: "group m 1 = v1" "group m 2 = v2" "group m 3 = v3" "group m 4 = Some g4"
    "group m 5 = v5" "group m 6 = Some g6"
    unfolding group_def m snd_conv caps
    by (simp_all add: map_of_opt_cap map_of_opt_cap_end del: map_of_append)
  show "position = opt_text (group m 1) @ opt_text (group m 2) @ opt_text (group m 3)
           @ group_text m 4 @ method_text (group m 5) @ '' ('' @ group_text m 6 @ '')''"
    unfolding group_text_def groups
    using v1(1) v2(1) v3(1) g4(1) v5(1) g6(1) tail(1,3) by simp
  have "v1 = None \<or> v1 = Some ''async ''"
  proof (cases v1)
    case None
    then show ?thesis by simp
  next
    case (Some t)
    with v1(3) have "(fst s1, rest_of s1, []) \<in> set (ms (RLit ''async '') ?s0)"
      by blast
    from in_RLit [OF this] v1(1) Some have "t = ''async ''"
      by (simp add: rest_of_def opt_text_def)
    with Some show ?thesis by simp
  qed
  then show "group m 1 = None \<or> group m 1 = Some ''async ''"
    unfolding groups .
  have "v2 = None \<or> v2 = Some ''new ''"
  proof (cases v2)
    case None
    then show ?thesis by simp
  next
    case (Some t)
    with v2(3) have "(fst s2, rest_of s2, caps_of s1) \<in> set (ms (RLit ''new '') s1)"
      by blast
    from in_RLit [OF this] v2(1) Some have "t = ''new ''"
      by (simp add: rest_of_def opt_text_def)
    with Some show ?thesis by simp
  qed
  then show "group m 2 = None \<or> group m 2 = Some ''new ''"
    unfolding groups .
  have "\<forall>t. v3 = Some t \<longrightarrow> (\<exists>T. T \<noteq> [] \<and> t = T @ ''.'')"
  proof (intro allI impI)
    fix t
    assume t: "v3 = Some t"
    with v3(3) have "(fst s3, rest_of s3, caps_of s2) \<in> set (ms typeNameRegExp s2)"
      by blast
    from in_typeName [OF this] obtain T where "T \<noteq> []" "rest_of s2 = (T @ ''.'') @ rest_of s3"
      by (auto simp: rest_of_def)
    with v3(1) t show "\<exists>T. T \<noteq> [] \<and> t = T @ ''.''"
      by (intro exI [of _ T]) (simp add: opt_text_def)
  qed
  then show "\<forall>t. group m 3 = Some t \<longrightarrow> (\<exists>T. T \<noteq> [] \<and> t = T @ ''.'')"
    unfolding groups .
  show "group m 4 \<noteq> None" "group m 5 \<noteq> Some []" "group m 6 \<noteq> None"
    unfolding groups using v5(3) by simp_all
qed

text \<open>
  The file name of \<^verbatim>\<open>fileLocationRegExp\<close>,
  \<^verbatim>\<open>native|unknown location|<anonymous>|(?:(?:[a-zA-Z]|file|https?):)?[^:]+\<close>, and the text that
  follows a file name with these line and column numbers.
\<close>

definition fileNameRegExp :: regex where
  "fileNameRegExp =
     RAlt (RLit ''native'')
    (RAlt (RLit ''unknown location'')
    (RAlt (RLit ''<anonymous>'')
          (Cat [ROpt (Cat [RAlt (RSet False [Rng CHR ''a'' CHR ''z'', Rng CHR ''A'' CHR ''Z''])
                           (RAlt (RLit ''file'')
                                 (Cat [RLit ''http'', ROpt (RLit ''s'')])),
                           RLit '':'']),
                OneOrMore (RSet True [One CHR '':''])])))"

definition is_digit :: "char \<Rightarrow> bool" where
  "is_digit c = list_ex (in_item c) [Rng CHR ''0'' CHR ''9'']"

definition number_suffix :: "string option \<Rightarrow> string option \<Rightarrow> string" where
  "number_suffix line column =
     (case line of
        None \<Rightarrow> []
      | Some l \<Rightarrow> '':'' @ l @ (case column of None \<Rightarrow> [] | Some c \<Rightarrow> '':'' @ c))"

lemma fileLocationRegExp_parts:
  "fileLocationRegExp =
     RSeq RBol
       (RSeq (RGroup 1 fileNameRegExp)
       (RSeq (ROpt (RSeq (RLit '':'')
                   (RSeq (RGroup 2 (OneOrMore digit))
                   (RSeq (ROpt (RSeq (RLit '':'') (RSeq (RGroup 3 (OneOrMore digit)) (RLit []))))
                         (RLit [])))))
       (RSeq REol (RLit []))))"
  by (simp add: fileLocationRegExp_def fileNameRegExp_def Cat_def)

lemma groupless_fileName: "groupless fileNameRegExp" "groupless (OneOrMore digit)"
  by (simp_all add: fileNameRegExp_def Cat_def OneOrMore_def digit_def)

lemma in_fileName:
  assumes "st' \<in> set (ms fileNameRegExp st)"
  shows "rest_of st \<noteq> rest_of st'"
proof -
  let ?scheme = "ROpt (Cat [RAlt (RSet False [Rng CHR ''a'' CHR ''z'', Rng CHR ''A'' CHR ''Z''])
                           (RAlt (RLit ''file'') (Cat [RLit ''http'', ROpt (RLit ''s'')])),
                           RLit '':''])"
  from assms consider "st' \<in> set (ms (RLit ''native'') st)"
    | "st' \<in> set (ms (RLit ''unknown location'') st)"
    | "st' \<in> set (ms (RLit ''<anonymous>'') st)"
    | "st' \<in> set (ms (RSeq ?scheme (RSeq (OneOrMore (RSet True [One CHR '':''])) (RLit []))) st)"
    unfolding fileNameRegExp_def Cat_def [of "[ROpt _, _]"] by (auto dest!: in_RAlt)
  then show ?thesis
  proof cases
    case 1
    from in_RLit [OF this] show ?thesis by auto
  next
    case 2
    from in_RLit [OF this] show ?thesis by auto
  next
    case 3
    from in_RLit [OF this] show ?thesis by auto
  next
    case 4
    then obtain a b where a: "a \<in> set (ms ?scheme st)"
      and b: "b \<in> set (ms (OneOrMore (RSet True [One CHR '':''])) a)"
      and c: "st' \<in> set (ms (RLit []) b)"
      by (auto dest!: in_RSeq)
    from consumed_prefix [OF a] obtain t where "rest_of st = t @ rest_of a"
      by blast
    moreover from in_class_plus [OF b] obtain w where "rest_of a = w @ rest_of b" "w \<noteq> []"
      by blast
    moreover from in_RLit [OF c] have "rest_of b = rest_of st'"
      by simp
    ultimately have "length (rest_of st') < length (rest_of st)"
      by simp
    then show ?thesis
      by auto
  qed
qed

lemma in_number:
  assumes "st' \<in> set (ms (RGroup n (OneOrMore digit)) st)"
  shows "\<exists>t. rest_of st = t @ rest_of st' \<and> caps_of st' = (n, t) # caps_of st
           \<and> t \<noteq> [] \<and> (\<forall>c \<in> set t. is_digit c)"
proof -
  from in_group [OF assms groupless_fileName(2)] obtain t where t: "rest_of st = t @ rest_of st'"
    "caps_of st' = (n, t) # caps_of st"
    "(fst st', rest_of st', caps_of st) \<in> set (ms (OneOrMore digit) st)"
    by blast
  from in_class_plus [OF t(3) [unfolded digit_def]] t(1)
  have "t \<noteq> []" "\<forall>c \<in> set t. is_digit c"
    by (auto simp: rest_of_def is_digit_def)
  with t(1,2) show ?thesis
    by blast
qed

lemma in_numbers:
  assumes "st' \<in> set (ms (ROpt (RSeq (RLit '':'')
                   (RSeq (RGroup 2 (OneOrMore digit))
                   (RSeq (ROpt (RSeq (RLit '':'') (RSeq (RGroup 3 (OneOrMore digit)) (RLit []))))
                         (RLit []))))) st)"
  shows "\<exists>v2 v3. rest_of st = number_suffix v2 v3 @ rest_of st'
           \<and> caps_of st' = opt_cap 3 v3 @ opt_cap 2 v2 @ caps_of st
           \<and> (v2 = None \<longrightarrow> v3 = None)
           \<and> (\<forall>t. v2 = Some t \<or> v3 = Some t \<longrightarrow> t \<noteq> [] \<and> (\<forall>c \<in> set t. is_digit c))"
proof -
  from in_ROpt [OF assms] consider "st' = st"
    | "st' \<in> set (ms (RSeq (RLit '':'')
                   (RSeq (RGroup 2 (OneOrMore digit))
                   (RSeq (ROpt (RSeq (RLit '':'') (RSeq (RGroup 3 (OneOrMore digit)) (RLit []))))
                         (RLit [])))) st)"
    by blast
  then show ?thesis
  proof cases
    case 1
    then show ?thesis
      by (intro exI [of _ None, OF exI [of _ None]]) (simp add: number_suffix_def opt_cap_def)
  next
    case 2
    then obtain a b c where a: "a \<in> set (ms (RLit '':'') st)"
      and b: "b \<in> set (ms (RGroup 2 (OneOrMore digit)) a)"
      and c: "c \<in> set (ms (ROpt (RSeq (RLit '':'') (RSeq (RGroup 3 (OneOrMore digit)) (RLit [])))) b)"
      and d: "st' \<in> set (ms (RLit []) c)"
      by (auto dest!: in_RSeq)
    from in_number [OF b] obtain t2 where t2: "rest_of a = t2 @ rest_of b"
      "caps_of b = (2, t2) # caps_of a" "t2 \<noteq> []" "\<forall>c \<in> set t2. is_digit c"
      by blast
    from in_RLit [OF a] in_RLit [OF d]
    have ends: "rest_of st = '':'' @ rest_of a" "caps_of a = caps_of st"
      "rest_of c = rest_of st'" "caps_of st' = caps_of c"
      by simp_all
    from in_ROpt [OF c] consider "c = b"
      | "c \<in> set (ms (RSeq (RLit '':'') (RSeq (RGroup 3 (OneOrMore digit)) (RLit []))) b)"
      by blast
    then show ?thesis
    proof cases
      case 1
      with t2 ends show ?thesis
        by (intro exI [of _ "Some t2", OF exI [of _ None]]) (auto simp: number_suffix_def opt_cap_def)
    next
      case 2
      then obtain e f where e: "e \<in> set (ms (RLit '':'') b)"
        and f: "f \<in> set (ms (RGroup 3 (OneOrMore digit)) e)" and g: "c \<in> set (ms (RLit []) f)"
        by (auto dest!: in_RSeq)
      from in_number [OF f] obtain t3 where t3: "rest_of e = t3 @ rest_of f"
        "caps_of f = (3, t3) # caps_of e" "t3 \<noteq> []" "\<forall>c \<in> set t3. is_digit c"
        by blast
      from in_RLit [OF e] in_RLit [OF g]
      have "rest_of b = '':'' @ rest_of e" "caps_of e = caps_of b"
        "rest_of f = rest_of c" "caps_of c = caps_of f"
        by simp_all
      with t2 t3 ends show ?thesis
        by (intro exI [of _ "Some t2", OF exI [of _ "Some t3"]])
          (auto simp: number_suffix_def opt_cap_def)
    qed
  qed
qed

text \<open>A match of \<^verbatim>\<open>fileLocationRegExp\<close> splits the location into its captures.\<close>

lemma fileLocationRegExp_match:
  assumes "exec fileLocationRegExp location = Some m"
  shows "location = group_text m 1 @ number_suffix (group m 2) (group m 3)"
    and "group m 1 \<noteq> None" and "group m 1 \<noteq> Some []"
    and "group m 2 = None \<longrightarrow> group m 3 = None"
    and "\<forall>t. group m 2 = Some t \<or> group m 3 = Some t \<longrightarrow> t \<noteq> [] \<and> (\<forall>c \<in> set t. is_digit c)"
proof -
  let ?s0 = "(None, location, []) :: mstate"
  from exec_RBol_member [OF assms [unfolded fileLocationRegExp_parts]]
  obtain st where m: "m = (0, st)" and "st \<in> set (ms
       (RSeq (RGroup 1 fileNameRegExp)
       (RSeq (ROpt (RSeq (RLit '':'')
                   (RSeq (RGroup 2 (OneOrMore digit))
                   (RSeq (ROpt (RSeq (RLit '':'') (RSeq (RGroup 3 (OneOrMore digit)) (RLit []))))
                         (RLit [])))))
       (RSeq REol (RLit [])))) ?s0)"
    by blast
  then obtain s1 s2 s3 where s1: "s1 \<in> set (ms (RGroup 1 fileNameRegExp) ?s0)"
    and s2: "s2 \<in> set (ms (ROpt (RSeq (RLit '':'')
                   (RSeq (RGroup 2 (OneOrMore digit))
                   (RSeq (ROpt (RSeq (RLit '':'') (RSeq (RGroup 3 (OneOrMore digit)) (RLit []))))
                         (RLit []))))) s1)"
    and s3: "s3 \<in> set (ms REol s2)" and st: "st \<in> set (ms (RLit []) s3)"
    by (auto dest!: in_RSeq)
  from in_group [OF s1 groupless_fileName(1)] obtain g1 where g1:
    "location = g1 @ rest_of s1" "caps_of s1 = [(1, g1)]"
    "(fst s1, rest_of s1, []) \<in> set (ms fileNameRegExp ?s0)"
    by (auto simp: rest_of_def caps_of_def)
  from in_fileName [OF g1(3)] g1(1) have nonempty: "g1 \<noteq> []"
    by (auto simp: rest_of_def)
  from in_numbers [OF s2] obtain v2 v3 where v: "rest_of s1 = number_suffix v2 v3 @ rest_of s2"
    "caps_of s2 = opt_cap 3 v3 @ opt_cap 2 v2 @ caps_of s1" "v2 = None \<longrightarrow> v3 = None"
    "\<forall>t. v2 = Some t \<or> v3 = Some t \<longrightarrow> t \<noteq> [] \<and> (\<forall>c \<in> set t. is_digit c)"
    by blast
  from in_REol [OF s3] in_RLit [OF st] have ends: "rest_of s2 = []" "caps_of st = caps_of s2"
    by simp_all
  have caps: "caps_of st = opt_cap 3 v3 @ opt_cap 2 v2 @ [(1, g1)]"
    using g1(2) v(2) ends(2) by simp
  have groups: "group m 1 = Some g1" "group m 2 = v2" "group m 3 = v3"
    unfolding group_def m snd_conv caps
    by (simp_all add: map_of_opt_cap del: map_of_append)
  show "location = group_text m 1 @ number_suffix (group m 2) (group m 3)"
    unfolding group_text_def groups using g1(1) v(1) ends(1) by simp
  show "group m 1 \<noteq> None" "group m 1 \<noteq> Some []"
    unfolding groups using nonempty by simp_all
  show "group m 2 = None \<longrightarrow> group m 3 = None"
    unfolding groups by (rule v(3))
  show "\<forall>t. group m 2 = Some t \<or> group m 3 = Some t \<longrightarrow> t \<noteq> [] \<and> (\<forall>c \<in> set t. is_digit c)"
    unfolding groups by (rule v(4))
qed

text \<open>The expressions \<^verbatim>\<open>/^    at (.*)$/\<close> and \<^verbatim>\<open>/^eval at (.*)$/\<close>.\<close>

lemma prefix_match:
  assumes "exec (RSeq RBol (RSeq (RLit p) (RSeq (RGroup 1 (RStar RDot)) (RSeq REol (RLit []))))) s
             = Some m"
  shows "s = p @ group_text m 1"
proof -
  let ?s0 = "(None, s, []) :: mstate"
  from exec_RBol_member [OF assms] obtain st where m: "m = (0, st)"
    and "st \<in> set (ms (RSeq (RLit p) (RSeq (RGroup 1 (RStar RDot)) (RSeq REol (RLit [])))) ?s0)"
    by blast
  then obtain s1 s2 s3 where s1: "s1 \<in> set (ms (RLit p) ?s0)"
    and s2: "s2 \<in> set (ms (RGroup 1 (RStar RDot)) s1)"
    and s3: "s3 \<in> set (ms REol s2)" and st: "st \<in> set (ms (RLit []) s3)"
    by (auto dest!: in_RSeq)
  from in_group [OF s2] obtain g where g: "rest_of s1 = g @ rest_of s2"
    "caps_of s2 = (1, g) # caps_of s1"
    by auto
  from in_RLit [OF s1] in_REol [OF s3] in_RLit [OF st]
  have "s = p @ rest_of s1" "caps_of s1 = []" "rest_of s2 = []" "caps_of st = caps_of s2"
    by (simp_all add: rest_of_def caps_of_def)
  with g show ?thesis
    by (simp add: group_text_def group_def m)
qed

lemma frameRegExp_match: "exec frameRegExp line = Some m \<Longrightarrow> line = ''    at '' @ group_text m 1"
  using prefix_match [of "''    at ''" line m] by (simp add: frameRegExp_def Cat_def)

lemma evalLocationRegExp_match:
  "exec evalLocationRegExp location = Some m \<Longrightarrow> location = ''eval at '' @ group_text m 1"
  using prefix_match [of "''eval at ''" location m] by (simp add: evalLocationRegExp_def Cat_def)

subsection \<open>Parsing and serializing a frame\<close>

text \<open>
  Claim C3 as stated fails in its general part: the grammar accepts a frame line with both
  modifiers, \<^verbatim>\<open>async new\<close>, and its parse serializes without \<^verbatim>\<open>new\<close>, because
  \<^verbatim>\<open>formatStackFrame\<close> writes one modifier at most.
\<close>

theorem async_new_not_identical:
  "map_option formatStackFrame
     (parseStackFrame (\<lambda>p. take 1 p = ''/'') ''    at async new Foo (/a/b.js:10:5)'')
   = Some ''    at async Foo (/a/b.js:10:5)''
   \<and> map_option formatStackFrame
     (parseStackFrame (\<lambda>p. take 1 p = ''/'') ''    at async new Foo (/a/b.js:10:5)'')
   \<noteq> Some ''    at async new Foo (/a/b.js:10:5)''"
  by (simp add: regex_eval frame_eval string_of_nat.simps [of 10])

text \<open>
  Three more lines that the grammar accepts and that are not serialized as they were read: a
  line number with a leading zero, a location that is no location, and an empty function
  name.
\<close>

lemma other_lines_not_identical:
  "map_option formatStackFrame (parseStackFrame (\<lambda>p. True) ''    at f (/x.js:03:4)'')
     = Some ''    at f (/x.js:3:4)''
   \<and> map_option formatStackFrame (parseStackFrame (\<lambda>p. True) ''    at foo ()'')
     = Some ''    at foo (unknown location)''
   \<and> map_option formatStackFrame (parseStackFrame (\<lambda>p. True) ''    at  (x (/p/node.js))'')
     = Some ''    at x (/p/node.js)''"
  by (simp add: regex_eval frame_eval)

text \<open>
  The lines on which parsing and serializing are inverse.  A numeral is canonical when it is
  the decimal notation, without leading zeros, of a number below \<open>2\<^sup>5\<^sup>3\<close>: up to there
  \<^verbatim>\<open>parseInt\<close>, the subtraction, the addition and the conversion to a string are exact.
  A line has plain numbers when every run of digits after a colon is canonical.  A frame is
  plain when it does not carry both modifiers, its function name is not the empty string, it
  has a file name or an eval origin, and its eval origin is plain.
\<close>

definition canonical_numeral :: "string \<Rightarrow> bool" where
  "canonical_numeral t = (t = [] \<or> (parseInt t < 2 ^ 53 \<and> number_toString (parseInt t) = t))"

fun plain_numbers :: "string \<Rightarrow> bool" where
  "plain_numbers [] = True"
| "plain_numbers (c # s) =
     ((c = CHR '':'' \<longrightarrow> canonical_numeral (takeWhile is_digit s)) \<and> plain_numbers s)"

fun plain_frame :: "StackFrame \<Rightarrow> bool" where
  "plain_frame (StackFrame tn fn mn file lnum cnum origin ctor async) =
     (\<not> (async = Some True \<and> ctor = Some True) \<and> fn \<noteq> Some []
      \<and> (file \<noteq> None \<or> origin \<noteq> None)
      \<and> (case origin of None \<Rightarrow> True | Some o' \<Rightarrow> plain_frame o'))"

lemma plain_numbers_at:
  "plain_numbers (pre @ CHR '':'' # s) \<Longrightarrow> canonical_numeral (takeWhile is_digit s)"
  by (induction pre) simp_all

lemma takeWhile_digits:
  "\<forall>c \<in> set t. is_digit c \<Longrightarrow> rest = [] \<or> \<not> is_digit (hd rest) \<Longrightarrow>
   takeWhile is_digit (t @ rest) = t"
  by (cases rest) (simp_all add: takeWhile_append2 [of t is_digit] takeWhile_append1)

lemma colon_not_digit: "\<not> is_digit CHR '':''" "\<not> is_digit CHR '')''"
  by (simp_all add: is_digit_def)

lemma canonical_at:
  assumes "plain_numbers (pre @ CHR '':'' # t @ rest)" and "\<forall>c \<in> set t. is_digit c"
    and "rest = [] \<or> \<not> is_digit (hd rest)" and "t \<noteq> []"
  shows "number_toString (parseInt t - 1 + 1) = t"
proof -
  from plain_numbers_at [OF assms(1)] takeWhile_digits [OF assms(2,3)]
  have "canonical_numeral t"
    by simp
  with assms(4) show ?thesis
    by (simp add: canonical_numeral_def)
qed

lemma formatLocation_fields:
  "formatLocation (StackFrame tn fn mn (fileName l) (lineNumber l) (columnNumber l) (evalOrigin l)
                     ctor async) = formatLocation l"
  by (cases l) simp

lemma formatStackFrame_location:
  "functionName l = None \<Longrightarrow> formatStackFrame l = ''    at '' @ formatLocation l"
  by (cases l) (simp add: truthy_def)

lemma plain_frame_origin:
  "plain_frame f \<Longrightarrow> (case evalOrigin f of None \<Rightarrow> True | Some o' \<Rightarrow> plain_frame o')"
  by (cases f) simp

lemma formatLocation_file:
  assumes m: "exec fileLocationRegExp location = Some m"
    and numbers: "plain_numbers (pre @ location @ post)" and post: "post = [] \<or> \<not> is_digit (hd post)"
  shows "formatLocation
           (StackFrame None None None (group m 1)
              (map_option (\<lambda>l. parseInt l - 1) (group m 2))
              (map_option (\<lambda>l. parseInt l - 1) (group m 3)) None None None) = location"
proof -
  note parts = fileLocationRegExp_match [OF m]
  from parts(2) obtain g1 where g1: "group m 1 = Some g1"
    by blast
  with parts(3) have nonempty: "g1 \<noteq> []"
    by simp
  show ?thesis
  proof (cases "group m 2")
    case None
    with parts(4) have "group m 3 = None"
      by simp
    with None g1 nonempty parts(1) show ?thesis
      by (simp add: truthy_def toString_opt_def group_text_def number_suffix_def)
  next
    case line: (Some t2)
    with parts(5) have t2: "t2 \<noteq> []" "\<forall>c \<in> set t2. is_digit c"
      by blast+
    show ?thesis
    proof (cases "group m 3")
      case None
      with line g1 parts(1) have location: "location = g1 @ '':'' @ t2"
        by (simp add: group_text_def number_suffix_def)
      with numbers have "plain_numbers ((pre @ g1) @ CHR '':'' # t2 @ post)"
        by simp
      from canonical_at [OF this t2(2) post t2(1)] None line g1 nonempty location show ?thesis
        by (simp add: truthy_def toString_opt_def)
    next
      case column: (Some t3)
      with parts(5) have t3: "t3 \<noteq> []" "\<forall>c \<in> set t3. is_digit c"
        by blast+
      from column line g1 parts(1) have location: "location = g1 @ '':'' @ t2 @ '':'' @ t3"
        by (simp add: group_text_def number_suffix_def)
      with numbers have "plain_numbers ((pre @ g1) @ CHR '':'' # t2 @ (CHR '':'' # t3 @ post))"
        and "plain_numbers ((pre @ g1 @ '':'' @ t2) @ CHR '':'' # t3 @ post)"
        by simp_all
      from canonical_at [OF this(1) t2(2) _ t2(1)] canonical_at [OF this(2) t3(2) post t3(1)]
        column line g1 nonempty location show ?thesis
        by (simp add: truthy_def toString_opt_def colon_not_digit)
    qed
  qed
qed

lemma location_step:
  assumes IH: "\<And>m f pre post. exec evalLocationRegExp location = Some m \<Longrightarrow>
                 parseStackFrame rooted (group_text m 1) = Some f \<Longrightarrow> plain_frame f \<Longrightarrow>
                 plain_numbers (pre @ group_text m 1 @ post) \<Longrightarrow>
                 post = [] \<or> \<not> is_digit (hd post) \<Longrightarrow> formatStackFrame f = group_text m 1"
    and parse: "parseStackFrameLocation rooted location = Some l"
    and origin: "case evalOrigin l of None \<Rightarrow> True | Some o' \<Rightarrow> plain_frame o'"
    and numbers: "plain_numbers (pre @ location @ post)"
    and post: "post = [] \<or> \<not> is_digit (hd post)"
  shows "formatLocation l = location \<and> functionName l = None"
proof (cases "exec evalLocationRegExp location")
  case (Some m)
  with parse obtain f where f: "parseStackFrame rooted (group_text m 1) = Some f"
    and l: "l = StackFrame None None None None None None (Some f) None None"
    by (subst (asm) parseStackFrameLocation.simps) (auto split: option.splits)
  from evalLocationRegExp_match [OF Some] have location: "location = ''eval at '' @ group_text m 1" .
  with numbers have "plain_numbers ((pre @ ''eval at '') @ group_text m 1 @ post)"
    by simp
  from IH [OF Some f _ this post] origin l have "formatStackFrame f = group_text m 1"
    by simp
  with l location show ?thesis
    by (simp add: truthy_def)
next
  case None
  with parse obtain m where m: "exec fileLocationRegExp location = Some m"
    and l: "l = StackFrame None None None (group m 1)
                  (map_option (\<lambda>l. parseInt l - 1) (group m 2))
                  (map_option (\<lambda>l. parseInt l - 1) (group m 3)) None None None"
    by (subst (asm) parseStackFrameLocation.simps) (auto split: option.splits)
  from formatLocation_file [OF m numbers post] l show ?thesis
    by simp
qed

lemma frame_step:
  assumes IH: "\<And>location l pre post.
                 parseStackFrameLocation rooted location = Some l \<Longrightarrow>
                 (case evalOrigin l of None \<Rightarrow> True | Some o' \<Rightarrow> plain_frame o') \<Longrightarrow>
                 plain_numbers (pre @ location @ post) \<Longrightarrow>
                 post = [] \<or> \<not> is_digit (hd post) \<Longrightarrow>
                 (\<exists>m0. exec frameRegExp line = Some m0
                     \<and> (case exec positionRegExp (group_text m0 1) of
                          None \<Rightarrow> location = group_text m0 1
                        | Some m \<Rightarrow> location = group_text m 6)) \<Longrightarrow>
                 formatLocation l = location \<and> functionName l = None"
    and parse: "parseStackFrame rooted line = Some f"
    and plain: "plain_frame f"
    and numbers: "plain_numbers (pre @ line @ post)"
    and post: "post = [] \<or> \<not> is_digit (hd post)"
  shows "formatStackFrame f = line"
proof -
  from parse obtain m0 where m0: "exec frameRegExp line = Some m0"
    by (subst (asm) parseStackFrame.simps) (auto split: option.splits)
  from frameRegExp_match [OF m0] have line: "line = ''    at '' @ group_text m0 1" .
  show ?thesis
  proof (cases "exec positionRegExp (group_text m0 1)")
    case None
    with parse m0 have l: "parseStackFrameLocation rooted (group_text m0 1) = Some f"
      by (subst (asm) parseStackFrame.simps) (auto split: option.splits if_splits)
    from numbers line have "plain_numbers ((pre @ ''    at '') @ group_text m0 1 @ post)"
      by simp
    from IH [OF l plain_frame_origin [OF plain] this post] m0 None
    have "formatLocation f = group_text m0 1 \<and> functionName f = None"
      by simp
    with line show ?thesis
      by (simp add: formatStackFrame_location)
  next
    case (Some m)
    note parts = positionRegExp_match [OF Some]
    let ?before = "opt_text (group m 1) @ opt_text (group m 2) @ opt_text (group m 3)
                     @ group_text m 4 @ method_text (group m 5)"
    from parts(5) obtain g4 where g4: "group m 4 = Some g4"
      by blast
    from parse m0 Some
    have f: "f = (case parseStackFrameLocation rooted (group_text m 6) of
                    None \<Rightarrow>
                      StackFrame (map_option butlast (group m 3)) (group m 4) (group m 5)
                        None None None None
                        (Some (truthy (group m 2))) (Some (truthy (group m 1)))
                  | Some l \<Rightarrow>
                      StackFrame (map_option butlast (group m 3)) (group m 4) (group m 5)
                        (fileName l) (lineNumber l) (columnNumber l) (evalOrigin l)
                        (Some (truthy (group m 2))) (Some (truthy (group m 1))))"
      by (subst (asm) parseStackFrame.simps) (auto split: option.splits)
    with plain obtain l where l: "parseStackFrameLocation rooted (group_text m 6) = Some l"
      by (cases "parseStackFrameLocation rooted (group_text m 6)") auto
    with f have f: "f = StackFrame (map_option butlast (group m 3)) (group m 4) (group m 5)
                        (fileName l) (lineNumber l) (columnNumber l) (evalOrigin l)
                        (Some (truthy (group m 2))) (Some (truthy (group m 1)))"
      by simp
    from plain have modifiers: "\<not> (truthy (group m 1) \<and> truthy (group m 2))"
      and name: "g4 \<noteq> []"
      and origin: "case evalOrigin l of None \<Rightarrow> True | Some o' \<Rightarrow> plain_frame o'"
      unfolding f by (auto simp: g4)
    from numbers line parts(1)
    have "plain_numbers ((pre @ ''    at '' @ ?before @ '' ('') @ group_text m 6 @ ('')'' @ post))"
      by simp
    from IH [OF l origin this] m0 Some have location: "formatLocation l = group_text m 6"
      by (simp add: colon_not_digit)
    have prefix: "(if Some (truthy (group m 1)) = Some True then ''async ''
                   else if Some (truthy (group m 2)) = Some True then ''new '' else [])
                  = opt_text (group m 1) @ opt_text (group m 2)"
      using parts(2,3) modifiers by (auto simp: truthy_def opt_text_def)
    have type_name: "(if truthy (map_option butlast (group m 3))
                 then toString_opt (map_option butlast (group m 3)) @ ''.'' else [])
                = opt_text (group m 3)"
    proof (cases "group m 3")
      case None
      then show ?thesis
        by (simp add: truthy_def opt_text_def)
    next
      case (Some t)
      with parts(4) obtain T where "T \<noteq> []" "t = T @ ''.''"
        by blast
      with Some show ?thesis
        by (simp add: truthy_def opt_text_def toString_opt_def butlast_append)
    qed
    have method_name: "(if truthy (group m 5) then '' [as '' @ toString_opt (group m 5) @ '']'' else [])
                  = method_text (group m 5)"
      using parts(6) by (cases "group m 5") (simp_all add: truthy_def method_text_def toString_opt_def)
    have "formatStackFrame f
            = ''    at '' @ (opt_text (group m 1) @ opt_text (group m 2)) @ opt_text (group m 3)
                @ g4 @ method_text (group m 5) @ '' ('' @ group_text m 6 @ '')''"
      unfolding f formatStackFrame.simps formatLocation_fields location prefix type_name method_name
      using name by (simp add: g4 truthy_def toString_opt_def)
    also have "\<dots> = line"
      using line parts(1) by (simp add: group_text_def g4)
    finally show ?thesis .
  qed
qed

lemma round_trip_both:
  "(\<forall>f pre post. parseStackFrame rooted line = Some f \<longrightarrow> plain_frame f \<longrightarrow>
      plain_numbers (pre @ line @ post) \<longrightarrow> (post = [] \<or> \<not> is_digit (hd post)) \<longrightarrow>
      formatStackFrame f = line)"
  "(\<forall>l pre post. parseStackFrameLocation rooted location = Some l \<longrightarrow>
      (case evalOrigin l of None \<Rightarrow> True | Some o' \<Rightarrow> plain_frame o') \<longrightarrow>
      plain_numbers (pre @ location @ post) \<longrightarrow> (post = [] \<or> \<not> is_digit (hd post)) \<longrightarrow>
      formatLocation l = location \<and> functionName l = None)"
proof (induction rooted line and rooted location
        rule: parseStackFrame_parseStackFrameLocation.induct)
  case (1 isRootedDiskPath line)
  show ?case
  proof (intro allI impI)
    fix f pre post
    assume parse: "parseStackFrame isRootedDiskPath line = Some f" and plain: "plain_frame f"
      and numbers: "plain_numbers (pre @ line @ post)" and post: "post = [] \<or> \<not> is_digit (hd post)"
    show "formatStackFrame f = line"
    proof (rule frame_step [OF _ parse plain numbers post])
      fix location l pre' post'
      assume l: "parseStackFrameLocation isRootedDiskPath location = Some l"
        and origin: "case evalOrigin l of None \<Rightarrow> True | Some o' \<Rightarrow> plain_frame o'"
        and numbers': "plain_numbers (pre' @ location @ post')"
        and post': "post' = [] \<or> \<not> is_digit (hd post')"
        and "\<exists>m0. exec frameRegExp line = Some m0
               \<and> (case exec positionRegExp (group_text m0 1) of
                    None \<Rightarrow> location = group_text m0 1
                  | Some m \<Rightarrow> location = group_text m 6)"
      then obtain m0 where m0: "exec frameRegExp line = Some m0"
        and which: "case exec positionRegExp (group_text m0 1) of
                      None \<Rightarrow> location = group_text m0 1
                    | Some m \<Rightarrow> location = group_text m 6"
        by blast
      show "formatLocation l = location \<and> functionName l = None"
      proof (cases "exec positionRegExp (group_text m0 1)")
        case None
        with which have "location = group_text m0 1"
          by simp
        with 1(1) [OF m0 None] l origin numbers' post' show ?thesis
          by blast
      next
        case (Some m)
        with which have "location = group_text m 6"
          by simp
        with 1(2) [OF m0 Some] l origin numbers' post' show ?thesis
          by blast
      qed
    qed
  qed
next
  case (2 isRootedDiskPath location)
  show ?case
  proof (intro allI impI)
    fix l pre post
    assume parse: "parseStackFrameLocation isRootedDiskPath location = Some l"
      and origin: "case evalOrigin l of None \<Rightarrow> True | Some o' \<Rightarrow> plain_frame o'"
      and numbers: "plain_numbers (pre @ location @ post)"
      and post: "post = [] \<or> \<not> is_digit (hd post)"
    show "formatLocation l = location \<and> functionName l = None"
    proof (rule location_step [OF _ parse origin numbers post])
      fix m f pre' post'
      assume "exec evalLocationRegExp location = Some m"
        "parseStackFrame isRootedDiskPath (group_text m 1) = Some f" "plain_frame f"
        "plain_numbers (pre' @ group_text m 1 @ post')" "post' = [] \<or> \<not> is_digit (hd post')"
      with 2 show "formatStackFrame f = group_text m 1"
        by blast
    qed
  qed
qed

text \<open>
  Claim C3, amended to the lines on which the round trip holds.  Let \<^verbatim>\<open>parseStackFrame\<close>
  accept a line, whatever \<^verbatim>\<open>isRootedDiskPath\<close> is.  If the frame it returns is plain (it and
  its eval origins do not carry both \<^verbatim>\<open>isAsync\<close> and \<^verbatim>\<open>isConstructor\<close>, do not have the
  empty string as function name, and have a file name or an eval origin) and the numbers of
  the line are plain (every run of digits after a colon is a decimal numeral without leading
  zeros of a value below \<open>2\<^sup>5\<^sup>3\<close>), then \<^verbatim>\<open>formatStackFrame\<close> of the frame is the line, byte
  for byte.  The scenario of the claim is the instance that follows the theorem: the line
  \<^verbatim>\<open>"    at Object.foo (/a/b.js:10:5)"\<close> parses to the frame with type name \<open>Object\<close>,
  function name \<open>foo\<close>, file name \<open>/a/b.js\<close>, line number 9 and column number 4, and that
  frame serializes to the identical line.
\<close>

theorem parse_format_round_trip:
  assumes "parseStackFrame rooted l = Some f" and "plain_frame f" and "plain_numbers l"
  shows "formatStackFrame f = l"
  using round_trip_both(1) [of rooted l] assms
    by (metis append_Nil append_Nil2)

theorem parse_format_round_trip_witness:
  "parseStackFrame (\<lambda>p. True) ''    at Object.foo (/a/b.js:10:5)''
     = Some (StackFrame (Some ''Object'') (Some ''foo'') None (Some ''/a/b.js'') (Some 9) (Some 4)
               None (Some False) (Some False))
   \<and> plain_frame
       (StackFrame (Some ''Object'') (Some ''foo'') None (Some ''/a/b.js'') (Some 9) (Some 4)
          None (Some False) (Some False))
   \<and> plain_numbers ''    at Object.foo (/a/b.js:10:5)''
   \<and> formatStackFrame
       (StackFrame (Some ''Object'') (Some ''foo'') None (Some ''/a/b.js'') (Some 9) (Some 4)
          None (Some False) (Some False))
     = ''    at Object.foo (/a/b.js:10:5)''"
proof -
  have parse: "parseStackFrame (\<lambda>p. True) ''    at Object.foo (/a/b.js:10:5)''
     = Some (StackFrame (Some ''Object'') (Some ''foo'') None (Some ''/a/b.js'') (Some 9) (Some 4)
               None (Some False) (Some False))"
    by (simp add: regex_eval frame_eval)
  have frame: "plain_frame
       (StackFrame (Some ''Object'') (Some ''foo'') None (Some ''/a/b.js'') (Some 9) (Some 4)
          None (Some False) (Some False))"
    by simp
  have "canonical_numeral ''10''" "canonical_numeral ''5''"
    by (simp_all add: canonical_numeral_def parseInt_def number_toString_def
          string_of_nat.simps [of 10] string_of_nat_digit digit_char_def)
  then have numbers: "plain_numbers ''    at Object.foo (/a/b.js:10:5)''"
    by (simp add: is_digit_def)
  show ?thesis
    by (intro conjI) (rule parse frame numbers parse_format_round_trip [OF parse frame numbers])+
qed

subsection \<open>Runs of excluded frames\<close>

lemma filter_lines_initial:
  "filter_lines h opts ls = finish (foldl (filter_line h opts) initial_run ls)"
  by (simp add: filter_lines_def initial_run_def)

lemma filter_line_skips:
  assumes "lastFrameWasExcluded run" and "line_excluded h opts (frameCount run) l"
  shows "filter_line h opts run l =
           run\<lparr>excludedFrameCount := Suc (excludedFrameCount run),
               lastExcludedFrame := Some (reformat h opts l)\<rparr>"
  using assms
  by (auto simp: filter_line_def line_excluded_def reformat_def Let_def split: option.splits)

lemma filter_line_first_excluded:
  assumes "\<not> lastFrameWasExcluded run" and "line_excluded h opts (frameCount run) l"
  shows "filter_line h opts run l =
           run\<lparr>lastFrameWasExcluded := True, frameCount := Suc (frameCount run),
               filtered := filtered run @ [reformat h opts l]\<rparr>"
  using assms
  by (auto simp: filter_line_def line_excluded_def reformat_def Let_def split: option.splits)

lemma filter_line_kept:
  assumes "line_kept h opts (frameCount run) l"
  shows "filter_line h opts run l =
           run\<lparr>filtered := filtered run
                  @ (if excludedFrameCount run > 0 then [skipping_line (excludedFrameCount run)]
                     else [])
                  @ [reformat h opts l],
               excludedFrameCount := 0, lastFrameWasExcluded := False,
               frameCount := Suc (frameCount run)\<rparr>"
  using assms
  by (auto simp: filter_line_def line_kept_def reformat_def Let_def split: option.splits)

lemma filter_line_text:
  assumes "parseStackFrame (isRootedDiskPath h) l = None"
  shows "filter_line h opts run l = run\<lparr>filtered := filtered run @ [l]\<rparr>"
  using assms by (simp add: filter_line_def)

lemma skipped_run:
  assumes "lastFrameWasExcluded run"
    and "\<forall>l \<in> set es. line_excluded h opts (frameCount run) l"
  shows "foldl (filter_line h opts) run es =
           run\<lparr>excludedFrameCount := excludedFrameCount run + length es,
               lastExcludedFrame := (if es = [] then lastExcludedFrame run
                                     else Some (reformat h opts (last es)))\<rparr>"
  using assms
proof (induction es arbitrary: run)
  case Nil
  then show ?case by simp
next
  case (Cons l es)
  let ?run = "run\<lparr>excludedFrameCount := Suc (excludedFrameCount run),
                    lastExcludedFrame := Some (reformat h opts l)\<rparr>"
  have step: "filter_line h opts run l = ?run"
    using Cons.prems by (simp add: filter_line_skips)
  have "foldl (filter_line h opts) ?run es =
          ?run\<lparr>excludedFrameCount := excludedFrameCount ?run + length es,
                lastExcludedFrame := (if es = [] then lastExcludedFrame ?run
                                      else Some (reformat h opts (last es)))\<rparr>"
    using Cons.prems by (intro Cons.IH) simp_all
  then show ?case
    by (simp add: step)
qed

lemma excluded_run_then_kept_state:
  assumes "\<not> lastFrameWasExcluded r" and "excludedFrameCount r = 0"
    and "line_excluded h opts (frameCount r) e"
    and "\<forall>l \<in> set es. line_excluded h opts (Suc (frameCount r)) l"
    and "line_kept h opts (Suc (frameCount r)) k"
  shows "foldl (filter_line h opts) r (e # es @ [k]) =
       r\<lparr>filtered := filtered r @ [reformat h opts e]
                      @ (if es = [] then [] else [skipping_line (length es)])
                      @ [reformat h opts k],
         excludedFrameCount := 0, lastFrameWasExcluded := False,
         frameCount := Suc (Suc (frameCount r)),
         lastExcludedFrame := (if es = [] then lastExcludedFrame r
                               else Some (reformat h opts (last es)))\<rparr>"
proof -
  obtain f c w x le where rr:
    "r = \<lparr>filtered = f, frameCount = c, lastFrameWasExcluded = w, excludedFrameCount = x,
          lastExcludedFrame = le\<rparr>"
    by (cases r) simp
  from assms have w: "\<not> w" and x: "x = 0" and e: "line_excluded h opts c e"
    and es: "\<forall>l \<in> set es. line_excluded h opts (Suc c) l" and k: "line_kept h opts (Suc c) k"
    by (simp_all add: rr)
  let ?r1 = "\<lparr>filtered = f @ [reformat h opts e], frameCount = Suc c,
              lastFrameWasExcluded = True, excludedFrameCount = 0, lastExcludedFrame = le\<rparr>"
  have s1: "filter_line h opts r e = ?r1"
    using filter_line_first_excluded [of r h opts e] w x e by (simp add: rr)
  let ?r2 = "\<lparr>filtered = f @ [reformat h opts e], frameCount = Suc c,
              lastFrameWasExcluded = True, excludedFrameCount = length es,
              lastExcludedFrame = (if es = [] then le else Some (reformat h opts (last es)))\<rparr>"
  have s2: "foldl (filter_line h opts) ?r1 es = ?r2"
    using skipped_run [of ?r1 es h opts] es by simp
  have s3: "filter_line h opts ?r2 k =
              \<lparr>filtered = f @ [reformat h opts e]
                       @ (if es = [] then [] else [skipping_line (length es)])
                       @ [reformat h opts k],
               frameCount = Suc (Suc c), lastFrameWasExcluded = False, excludedFrameCount = 0,
               lastExcludedFrame = (if es = [] then le else Some (reformat h opts (last es)))\<rparr>"
    using filter_line_kept [of h opts ?r2 k] k by simp
  show ?thesis
    by (simp add: s1 s2 s3) (simp add: rr)
qed

definition run_after :: "host \<Rightarrow> FilterStackOptions \<Rightarrow> string list \<Rightarrow> FilterRun" where
  "run_after h opts ls = foldl (filter_line h opts) initial_run ls"

lemma counting_implies_excluded_step:
  "excludedFrameCount r > 0 \<longrightarrow> lastFrameWasExcluded r \<Longrightarrow>
   excludedFrameCount (filter_line h opts r l) > 0 \<longrightarrow> lastFrameWasExcluded (filter_line h opts r l)"
  by (auto simp: filter_line_def Let_def split: option.splits)

lemma counting_implies_excluded_foldl:
  "excludedFrameCount r > 0 \<longrightarrow> lastFrameWasExcluded r \<Longrightarrow>
   excludedFrameCount (foldl (filter_line h opts) r ls) > 0
     \<longrightarrow> lastFrameWasExcluded (foldl (filter_line h opts) r ls)"
proof (induction ls arbitrary: r)
  case Nil
  then show ?case by simp
next
  case (Cons l ls)
  from Cons.IH [OF counting_implies_excluded_step [OF Cons.prems, of h opts l]]
  show ?case by simp
qed

lemma counting_implies_excluded:
  "\<not> lastFrameWasExcluded (run_after h opts ls) \<Longrightarrow> excludedFrameCount (run_after h opts ls) = 0"
  using counting_implies_excluded_foldl [of initial_run h opts ls]
  by (auto simp: run_after_def initial_run_def)

text \<open>
  Claim C2 as stated fails: for three consecutive excluded frames followed by a kept frame
  the output is the first excluded frame, the line \<^verbatim>\<open>"    ... skipping 2 frames ..."\<close> and the
  kept frame.  It does not start with the summary line, and the last excluded frame is not
  emitted again.
\<close>

theorem three_excluded_then_kept_output:
  "fst (filterStack example_host
          (StackText (''    at a (/x/node.js:1:1)'' @ [CHR 0x0A] @ ''    at b (/x/node.js:2:1)''
                      @ [CHR 0x0A] @ ''    at c (/x/node.js:3:1)'' @ [CHR 0x0A]
                      @ ''    at main (/app/main.js:4:1)''))
          exclude_node Map.empty)
   = StackText (''    at a (/x/node.js:1:1)'' @ [CHR 0x0A] @ ''    ... skipping 2 frames ...''
                @ [CHR 0x0A] @ ''    at main (/app/main.js:4:1)'')
   \<and> fst (filterStack example_host
          (StackText (''    at a (/x/node.js:1:1)'' @ [CHR 0x0A] @ ''    at b (/x/node.js:2:1)''
                      @ [CHR 0x0A] @ ''    at c (/x/node.js:3:1)'' @ [CHR 0x0A]
                      @ ''    at main (/app/main.js:4:1)''))
          exclude_node Map.empty)
   \<noteq> StackText (''    ... skipping 2 frames ...'' @ [CHR 0x0A] @ ''    at c (/x/node.js:3:1)''
                @ [CHR 0x0A] @ ''    at main (/app/main.js:4:1)'')"
  by (simp add: regex_eval frame_eval filter_eval)

text \<open>
  Claim C2, amended.  Let a run of excluded frames \<open>e # es\<close> come when the frame before
  it, if any, was not excluded, and let the kept frame \<open>k\<close> follow it.  The filter emits the
  first frame \<open>e\<close> of the run, reformatted; the other frames of the run collapse into the one
  line \<^verbatim>\<open>"    ... skipping N frame(s) ..."\<close>, where \<open>N\<close> is the length of the run minus one
  (no line when the run is \<open>e\<close> alone), emitted immediately before the kept frame; the last
  excluded frame is not emitted again.  For three excluded frames and a kept one that is:
  the first excluded frame, \<^verbatim>\<open>"    ... skipping 2 frames ..."\<close>, the kept frame.
\<close>

theorem excluded_run_then_kept:
  assumes "\<not> lastFrameWasExcluded (run_after h opts before)"
    and "line_excluded h opts (frameCount (run_after h opts before)) e"
    and "\<forall>l \<in> set es. line_excluded h opts (Suc (frameCount (run_after h opts before))) l"
    and "line_kept h opts (Suc (frameCount (run_after h opts before))) k"
  shows "filter_lines h opts (before @ e # es @ [k]) =
           filter_lines h opts before @ [reformat h opts e]
           @ (if es = [] then [] else [skipping_line (length es)])
           @ [reformat h opts k]"
proof -
  let ?r = "run_after h opts before"
  have zero: "excludedFrameCount ?r = 0"
    using assms(1) by (rule counting_implies_excluded)
  have "foldl (filter_line h opts) initial_run (before @ e # es @ [k])
          = foldl (filter_line h opts) ?r (e # es @ [k])"
    by (simp add: run_after_def)
  also have "\<dots> = ?r\<lparr>filtered := filtered ?r @ [reformat h opts e]
                      @ (if es = [] then [] else [skipping_line (length es)])
                      @ [reformat h opts k],
         excludedFrameCount := 0, lastFrameWasExcluded := False,
         frameCount := Suc (Suc (frameCount ?r)),
         lastExcludedFrame := (if es = [] then lastExcludedFrame ?r
                               else Some (reformat h opts (last es)))\<rparr>"
    using assms zero by (intro excluded_run_then_kept_state) simp_all
  finally show ?thesis
    using zero by (simp add: filter_lines_initial finish_def run_after_def)
qed

theorem excluded_run_then_kept_witness:
  "filter_lines example_host exclude_node
     ([''Error: boom''] @ ''    at a (/x/node.js:1:1)''
        # [''    at b (/x/node.js:2:1)'', ''    at c (/x/node.js:3:1)'']
        @ [''    at main (/app/main.js:4:1)''])
   = [''Error: boom'', ''    at a (/x/node.js:1:1)'', ''    ... skipping 2 frames ...'',
      ''    at main (/app/main.js:4:1)'']"
proof -
  have r: "run_after example_host exclude_node [''Error: boom'']
             = \<lparr>filtered = [''Error: boom''], frameCount = 0, lastFrameWasExcluded = False,
                excludedFrameCount = 0, lastExcludedFrame = None\<rparr>"
    by (simp add: run_after_def initial_run_def regex_eval frame_eval filter_eval)
  have a: "line_excluded example_host exclude_node 0 ''    at a (/x/node.js:1:1)''"
    and b: "line_excluded example_host exclude_node (Suc 0) ''    at b (/x/node.js:2:1)''"
    and c: "line_excluded example_host exclude_node (Suc 0) ''    at c (/x/node.js:3:1)''"
    and k: "line_kept example_host exclude_node (Suc 0) ''    at main (/app/main.js:4:1)''"
    by (simp_all add: line_excluded_def line_kept_def regex_eval frame_eval filter_eval)
  have texts:
    "reformat example_host exclude_node ''    at a (/x/node.js:1:1)'' = ''    at a (/x/node.js:1:1)''"
    "reformat example_host exclude_node ''    at main (/app/main.js:4:1)''
       = ''    at main (/app/main.js:4:1)''"
    "filter_lines example_host exclude_node [''Error: boom''] = [''Error: boom'']"
    "skipping_line (Suc (Suc 0)) = ''    ... skipping 2 frames ...''"
    by (simp_all add: reformat_def regex_eval frame_eval filter_eval)
  from excluded_run_then_kept [of example_host exclude_node "[''Error: boom'']"
      "''    at a (/x/node.js:1:1)''" "[''    at b (/x/node.js:2:1)'', ''    at c (/x/node.js:3:1)'']"
      "''    at main (/app/main.js:4:1)''"] r a b c k
  show ?thesis
    by (simp add: texts)
qed

subsection \<open>Filtering a filtered trace\<close>

definition no_breaks :: "string \<Rightarrow> bool" where
  "no_breaks l = (CHR 0x0D \<notin> set l \<and> CHR 0x0A \<notin> set l)"

lemma split_lines_nonempty: "split_lines s \<noteq> []"
  by (induction s rule: split_lines.induct) (auto split: list.splits)

lemma split_lines_LF: "split_lines (CHR 0x0A # s) = [] # split_lines s"
  by (cases s) simp_all

lemma split_lines_plain:
  "c \<noteq> CHR 0x0D \<Longrightarrow> c \<noteq> CHR 0x0A \<Longrightarrow>
   split_lines (c # s) = (c # hd (split_lines s)) # tl (split_lines s)"
  using split_lines_nonempty [of s] by (cases s) (auto split: list.splits)

lemma split_lines_no_breaks: "\<forall>l \<in> set (split_lines s). no_breaks l"
  by (induction s rule: split_lines.induct) (auto simp: no_breaks_def split: list.splits)

lemma split_lines_single: "no_breaks l \<Longrightarrow> split_lines l = [l]"
  by (induction l) (auto simp: no_breaks_def split_lines_plain)

lemma split_lines_append:
  "no_breaks l \<Longrightarrow> split_lines (l @ CHR 0x0A # s) = l # split_lines s"
  by (induction l) (auto simp: no_breaks_def split_lines_plain split_lines_LF)

lemma split_join_lines:
  "ls \<noteq> [] \<Longrightarrow> \<forall>l \<in> set ls. no_breaks l \<Longrightarrow> split_lines (join_lines ls) = ls"
  by (induction ls rule: join_lines.induct) (auto simp: split_lines_single split_lines_append)

lemma star_dot_consumes:
  "st' \<in> set (ms (RStar RDot) st) \<Longrightarrow>
   \<exists>pre. rest_of st = pre @ rest_of st' \<and> (\<forall>c \<in> set pre. \<not> line_terminator c)"
proof (induction "rest_of st" arbitrary: st)
  case Nil
  then show ?case
    by (subst (asm) ms.simps) (auto simp: ms.simps(2) rest_of_def)
next
  case (Cons c s)
  from Cons.prems consider "st' = st"
    | "\<not> line_terminator c" "st' \<in> set (ms (RStar RDot) (Some c, s, caps_of st))"
    using Cons.hyps(2) [symmetric]
    by (subst (asm) ms.simps) (auto simp: ms.simps(2) rest_of_def split: if_splits)
  then show ?case
  proof cases
    case 1
    then show ?thesis by simp
  next
    case 2
    from Cons.hyps(1) [of "(Some c, s, caps_of st)"] 2(2)
    obtain pre where "s = pre @ rest_of st'" "\<forall>c \<in> set pre. \<not> line_terminator c"
      by (auto simp: rest_of_def)
    with 2(1) Cons.hyps(2) [symmetric] show ?thesis
      by (intro exI [of _ "c # pre"]) simp
  qed
qed

lemma prefix_star_dot_eol:
  assumes "st \<in> set (ms (RSeq (RLit p) (RSeq (RGroup n (RStar RDot)) (RSeq REol (RLit []))))
                       (q, line, caps))"
  shows "\<exists>body. line = p @ body \<and> (\<forall>c \<in> set body. \<not> line_terminator c)"
proof -
  from assms obtain q' where pre: "take (length p) line = p"
    and st: "st \<in> set (ms (RSeq (RGroup n (RStar RDot)) (RSeq REol (RLit [])))
                         (q', drop (length p) line, caps))"
    by (auto simp: ms.simps(1,4) rest_of_def caps_of_def split: if_splits)
  from st obtain mid where mid: "mid \<in> set (ms (RStar RDot) (q', drop (length p) line, caps))"
    and e: "rest_of mid = []"
    by (auto simp: ms.simps(1,4,9,13) rest_of_def caps_of_def split: if_splits list.splits)
  from star_dot_consumes [OF mid] e
  have "\<forall>c \<in> set (drop (length p) line). \<not> line_terminator c"
    by (simp add: rest_of_def)
  moreover have "line = p @ drop (length p) line"
    using pre by (metis append_take_drop_id)
  ultimately show ?thesis by blast
qed

lemma frameRegExp_no_breaks:
  assumes "exec frameRegExp line = Some m"
  shows "no_breaks line"
proof -
  from assms obtain st where
    "st \<in> set (ms (RSeq (RLit ''    at '') (RSeq (RGroup 1 (RStar RDot)) (RSeq REol (RLit []))))
                 (None, line, []))"
    unfolding frameRegExp_def Cat_def
    by (auto simp: exec_RBol split: list.splits)
  from prefix_star_dot_eol [OF this]
  obtain body where "line = ''    at '' @ body" "\<forall>c \<in> set body. \<not> line_terminator c"
    by blast
  then show ?thesis
    by (auto simp: no_breaks_def line_terminator_def)
qed

lemma string_of_nat_digits: "set (string_of_nat n) \<subseteq> set ''0123456789''"
proof (induction n rule: string_of_nat.induct)
  case (1 n)
  have len: "length ''0123456789'' = 10"
    by simp
  have d: "digit_char k \<in> set ''0123456789''" if "k < 10" for k
    unfolding digit_char_def using that len nth_mem [of k "''0123456789''"] by presburger
  show ?case
  proof (cases "n < 10")
    case True
    then show ?thesis using d [of n] by (subst string_of_nat.simps) simp
  next
    case False
    with 1 d [of "n mod 10"] show ?thesis
      by (subst string_of_nat.simps) auto
  qed
qed

lemma skipping_line_no_breaks: "no_breaks (skipping_line n)"
  using string_of_nat_digits [of n]
  by (auto simp: skipping_line_def no_breaks_def number_toString_def)

lemma formatStackFrame_nonempty: "formatStackFrame f \<noteq> []"
  by (cases f) simp

lemma parseStackFrame_no_breaks:
  assumes "parseStackFrame rooted line = Some f"
  shows "no_breaks line"
proof (cases "exec frameRegExp line")
  case None
  with assms show ?thesis
    by (subst (asm) parseStackFrame.simps) simp
next
  case (Some m)
  then show ?thesis by (rule frameRegExp_no_breaks)
qed

lemma skipping_line_not_frame: "parseStackFrame rooted (skipping_line n) = None"
proof -
  have "ms (RLit ''    at '') (None, ''    ... skipping '' @ s, []) = []" for s
    by (simp add: ms.simps(1) rest_of_def)
  then have "exec frameRegExp (skipping_line n) = None"
    by (simp add: skipping_line_def frameRegExp_def Cat_def exec_RBol ms.simps(4))
  then show ?thesis
    by (subst parseStackFrame.simps) simp
qed

lemma excluded_or_kept:
  "parseStackFrame (isRootedDiskPath h) l = Some f \<Longrightarrow>
   line_kept h opts c l = (\<not> line_excluded h opts c l)"
  by (simp add: line_kept_def line_excluded_def)

lemma stable_reparses:
  assumes "stable_line h opts l" and "parseStackFrame (isRootedDiskPath h) l = Some f"
  shows "\<exists>g. parseStackFrame (isRootedDiskPath h) (reformat h opts l) = Some g"
    and "reformat h opts (reformat h opts l) = reformat h opts l"
    and "line_excluded h opts c (reformat h opts l) = line_excluded h opts c l"
  using assms
  by (auto simp: stable_line_def reformat_def line_excluded_def split: option.splits)

definition second_pass :: "host \<Rightarrow> FilterStackOptions \<Rightarrow> FilterRun \<Rightarrow> FilterRun" where
  "second_pass h opts r = foldl (filter_line h opts) initial_run (filtered r)"

definition in_step :: "host \<Rightarrow> FilterStackOptions \<Rightarrow> FilterRun \<Rightarrow> bool" where
  "in_step h opts r =
     (filtered (second_pass h opts r) = filtered r
      \<and> frameCount (second_pass h opts r) = frameCount r
      \<and> lastFrameWasExcluded (second_pass h opts r) = lastFrameWasExcluded r
      \<and> excludedFrameCount (second_pass h opts r) = 0
      \<and> (excludedFrameCount r > 0 \<longrightarrow>
           lastFrameWasExcluded r
           \<and> (\<exists>l f. lastExcludedFrame r = Some (reformat h opts l) \<and> stable_line h opts l
                    \<and> parseStackFrame (isRootedDiskPath h) l = Some f
                    \<and> line_excluded h opts (frameCount r) l)))"

lemma in_step_initial: "in_step h opts initial_run"
  by (simp add: in_step_def second_pass_def initial_run_def)

lemma second_pass_append:
  "filtered r' = filtered r @ extra \<Longrightarrow>
   second_pass h opts r' = foldl (filter_line h opts) (second_pass h opts r) extra"
  by (simp add: second_pass_def)

lemma in_step_filter_line:
  assumes inv: "in_step h opts r" and stable: "stable_line h opts l"
  shows "in_step h opts (filter_line h opts r l)"
proof -
  let ?r2 = "second_pass h opts r"
  from inv have f2: "filtered ?r2 = filtered r" and c2: "frameCount ?r2 = frameCount r"
    and w2: "lastFrameWasExcluded ?r2 = lastFrameWasExcluded r"
    and e2: "excludedFrameCount ?r2 = 0"
    and last: "excludedFrameCount r > 0 \<Longrightarrow>
           lastFrameWasExcluded r
           \<and> (\<exists>l f. lastExcludedFrame r = Some (reformat h opts l) \<and> stable_line h opts l
                    \<and> parseStackFrame (isRootedDiskPath h) l = Some f
                    \<and> line_excluded h opts (frameCount r) l)"
    by (simp_all add: in_step_def)
  show ?thesis
  proof (cases "parseStackFrame (isRootedDiskPath h) l")
    case None
    have r': "filter_line h opts r l = r\<lparr>filtered := filtered r @ [l]\<rparr>"
      using None by (rule filter_line_text)
    have "second_pass h opts (filter_line h opts r l) = filter_line h opts ?r2 l"
      by (simp add: second_pass_append [where r = r and extra = "[l]"] r')
    also have "\<dots> = ?r2\<lparr>filtered := filtered ?r2 @ [l]\<rparr>"
      using None by (rule filter_line_text)
    finally show ?thesis
      using f2 c2 w2 e2 last by (simp add: in_step_def r')
  next
    case (Some f)
    note re = stable_reparses [OF stable Some]
    show ?thesis
    proof (cases "line_excluded h opts (frameCount r) l")
      case True
      show ?thesis
      proof (cases "lastFrameWasExcluded r")
        case was: True
        have r': "filter_line h opts r l =
                    r\<lparr>excludedFrameCount := Suc (excludedFrameCount r),
                       lastExcludedFrame := Some (reformat h opts l)\<rparr>"
          using was True by (rule filter_line_skips)
        have "second_pass h opts (filter_line h opts r l) = ?r2"
          by (simp add: second_pass_def r')
        then show ?thesis
          using f2 c2 w2 e2 was True stable Some by (auto simp: in_step_def r')
      next
        case wasnt: False
        with last have e1: "excludedFrameCount r = 0" by auto
        have r': "filter_line h opts r l =
                    r\<lparr>lastFrameWasExcluded := True, frameCount := Suc (frameCount r),
                       filtered := filtered r @ [reformat h opts l]\<rparr>"
          using wasnt True by (rule filter_line_first_excluded)
        have "second_pass h opts (filter_line h opts r l)
                = filter_line h opts ?r2 (reformat h opts l)"
          by (simp add: second_pass_append [where r = r and extra = "[reformat h opts l]"] r')
        also have "\<dots> = ?r2\<lparr>lastFrameWasExcluded := True, frameCount := Suc (frameCount ?r2),
                              filtered := filtered ?r2 @ [reformat h opts (reformat h opts l)]\<rparr>"
          using wasnt True w2 c2 re(3) by (intro filter_line_first_excluded) simp_all
        finally show ?thesis
          using f2 c2 w2 e2 e1 re(2) by (simp add: in_step_def r')
      qed
    next
      case False
      then have kept: "line_kept h opts (frameCount r) l"
        using Some by (simp add: excluded_or_kept)
      let ?skip = "if excludedFrameCount r > 0 then [skipping_line (excludedFrameCount r)] else []"
      have r': "filter_line h opts r l =
                  r\<lparr>filtered := filtered r @ ?skip @ [reformat h opts l],
                     excludedFrameCount := 0, lastFrameWasExcluded := False,
                     frameCount := Suc (frameCount r)\<rparr>"
        using kept by (rule filter_line_kept)
      have skip2: "foldl (filter_line h opts) ?r2 ?skip = ?r2\<lparr>filtered := filtered ?r2 @ ?skip\<rparr>"
        by (simp add: filter_line_text skipping_line_not_frame)
      obtain g where g: "parseStackFrame (isRootedDiskPath h) (reformat h opts l) = Some g"
        using re(1) by blast
      have kept2: "line_kept h opts (frameCount (?r2\<lparr>filtered := filtered ?r2 @ ?skip\<rparr>))
                     (reformat h opts l)"
        using False re(3) c2 g by (simp add: excluded_or_kept)
      have "second_pass h opts (filter_line h opts r l)
              = foldl (filter_line h opts) ?r2 (?skip @ [reformat h opts l])"
        by (rule second_pass_append) (simp add: r')
      also have "\<dots> = filter_line h opts (?r2\<lparr>filtered := filtered ?r2 @ ?skip\<rparr>)
                          (reformat h opts l)"
        by (simp only: foldl_append skip2) simp
      also have "\<dots> = ?r2\<lparr>filtered := filtered ?r2 @ ?skip @ [reformat h opts (reformat h opts l)],
                            excludedFrameCount := 0, lastFrameWasExcluded := False,
                            frameCount := Suc (frameCount ?r2)\<rparr>"
        using filter_line_kept [OF kept2] e2 by simp
      finally show ?thesis
        using f2 c2 w2 e2 re(2) by (simp add: in_step_def r')
    qed
  qed
qed

lemma in_step_foldl:
  "in_step h opts r \<Longrightarrow> \<forall>l \<in> set ls. stable_line h opts l \<Longrightarrow>
   in_step h opts (foldl (filter_line h opts) r ls)"
  by (induction ls arbitrary: r) (simp_all add: in_step_filter_line)

lemma in_step_finish:
  assumes inv: "in_step h opts r"
  shows "filter_lines h opts (finish r) = finish r"
proof -
  let ?r2 = "second_pass h opts r"
  from inv have f2: "filtered ?r2 = filtered r" and c2: "frameCount ?r2 = frameCount r"
    and w2: "lastFrameWasExcluded ?r2 = lastFrameWasExcluded r"
    and e2: "excludedFrameCount ?r2 = 0"
    by (simp_all add: in_step_def)
  show ?thesis
  proof (cases "excludedFrameCount r > 0")
    case False
    then have "finish r = filtered r"
      by (simp add: finish_def)
    moreover have "filter_lines h opts (filtered r) = finish ?r2"
      by (simp add: filter_lines_initial second_pass_def)
    ultimately show ?thesis
      using f2 e2 by (simp add: finish_def)
  next
    case True
    with inv obtain l f where was: "lastFrameWasExcluded r"
      and lef: "lastExcludedFrame r = Some (reformat h opts l)"
      and stable: "stable_line h opts l"
      and parsed: "parseStackFrame (isRootedDiskPath h) l = Some f"
      and excl: "line_excluded h opts (frameCount r) l"
      by (auto simp: in_step_def)
    note re = stable_reparses [OF stable parsed]
    have nonempty: "reformat h opts l \<noteq> []"
      using parsed by (simp add: reformat_def formatStackFrame_nonempty)
    let ?skip = "if excludedFrameCount r - 1 > 0 then [skipping_line (excludedFrameCount r - 1)]
                 else []"
    have fin: "finish r = filtered r @ ?skip @ [reformat h opts l]"
      using True lef nonempty by (simp add: finish_def truthy_def toString_opt_def)
    have skip2: "foldl (filter_line h opts) ?r2 ?skip = ?r2\<lparr>filtered := filtered ?r2 @ ?skip\<rparr>"
      by (simp add: filter_line_text skipping_line_not_frame)
    have "foldl (filter_line h opts) initial_run (finish r)
            = foldl (filter_line h opts) ?r2 (?skip @ [reformat h opts l])"
      unfolding fin second_pass_def by (simp only: foldl_append)
    also have "\<dots> = filter_line h opts (?r2\<lparr>filtered := filtered ?r2 @ ?skip\<rparr>)
                        (reformat h opts l)"
      by (simp only: foldl_append skip2) simp
    also have "\<dots> = (?r2\<lparr>filtered := filtered ?r2 @ ?skip\<rparr>)
                         \<lparr>excludedFrameCount := Suc (excludedFrameCount ?r2),
                          lastExcludedFrame := Some (reformat h opts (reformat h opts l))\<rparr>"
      using filter_line_skips [of "?r2\<lparr>filtered := filtered ?r2 @ ?skip\<rparr>" h opts
          "reformat h opts l"] was w2 c2 excl re(3)
      by simp
    finally have "filter_lines h opts (finish r) = filtered r @ ?skip @ [reformat h opts l]"
      using f2 e2 re(2) nonempty
      by (simp add: filter_lines_initial finish_def truthy_def toString_opt_def)
    then show ?thesis
      by (simp add: fin)
  qed
qed

lemma filter_lines_idempotent:
  assumes "\<forall>l \<in> set ls. stable_line h opts l"
  shows "filter_lines h opts (filter_lines h opts ls) = filter_lines h opts ls"
  unfolding filter_lines_initial [of h opts ls]
  using assms by (intro in_step_finish in_step_foldl in_step_initial)

lemma reformat_no_breaks:
  assumes "stable_line h opts l" and "no_breaks l"
  shows "no_breaks (reformat h opts l)"
proof (cases "parseStackFrame (isRootedDiskPath h) l")
  case None
  with assms(2) show ?thesis by (simp add: reformat_def)
next
  case (Some f)
  from stable_reparses(1) [OF assms(1) Some] show ?thesis
    by (auto dest: parseStackFrame_no_breaks)
qed

definition clean_run :: "FilterRun \<Rightarrow> bool" where
  "clean_run r =
     ((\<forall>x \<in> set (filtered r). no_breaks x)
      \<and> (\<forall>x. lastExcludedFrame r = Some x \<longrightarrow> no_breaks x))"

lemma clean_run_filter_line:
  assumes "clean_run r" and "stable_line h opts l" and "no_breaks l"
  shows "clean_run (filter_line h opts r l)"
proof (cases "parseStackFrame (isRootedDiskPath h) l")
  case None
  with assms show ?thesis
    by (simp add: filter_line_text clean_run_def)
next
  case (Some f)
  have out: "no_breaks (formatStackFrame (rewrite h opts f))"
    using reformat_no_breaks [OF assms(2,3)] Some by (simp add: reformat_def)
  with assms(1) Some show ?thesis
    by (auto simp: filter_line_def clean_run_def Let_def skipping_line_no_breaks)
qed

lemma clean_run_foldl:
  "clean_run r \<Longrightarrow> \<forall>l \<in> set ls. stable_line h opts l \<and> no_breaks l \<Longrightarrow>
   clean_run (foldl (filter_line h opts) r ls)"
  by (induction ls arbitrary: r) (simp_all add: clean_run_filter_line)

lemma filter_lines_no_breaks:
  assumes "\<forall>l \<in> set ls. stable_line h opts l \<and> no_breaks l"
  shows "\<forall>x \<in> set (filter_lines h opts ls). no_breaks x"
proof -
  have "clean_run initial_run"
    by (simp add: clean_run_def initial_run_def)
  from clean_run_foldl [OF this assms] show ?thesis
    by (auto simp: filter_lines_initial finish_def clean_run_def skipping_line_no_breaks
          truthy_def toString_opt_def split: option.splits)
qed

text \<open>
  Claim C9 as stated fails.  With \<^verbatim>\<open>excludeNode\<close> alone, the two lines
  \<^verbatim>\<open>"    at  (x (/p/node.js))"\<close> and \<^verbatim>\<open>"    at  (y (/p/node.js))"\<close> parse to frames with an empty
  function name and the file names \<^verbatim>\<open>x (/p/node.js)\<close> and \<^verbatim>\<open>y (/p/node.js)\<close>, which are kept and
  written as \<^verbatim>\<open>"    at x (/p/node.js)"\<close> and \<^verbatim>\<open>"    at y (/p/node.js)"\<close>.  In the filtered trace
  these are frames of the file \<^verbatim>\<open>/p/node.js\<close>: filtering it again excludes them and collapses
  the second.
\<close>

theorem filterStack_not_idempotent:
  "fst (filterStack example_host
          (StackText (''    at  (x (/p/node.js))'' @ [CHR 0x0A] @ ''    at  (y (/p/node.js))''
                      @ [CHR 0x0A] @ ''    at k (/k.js:1:1)''))
          exclude_node Map.empty)
   = StackText (''    at x (/p/node.js)'' @ [CHR 0x0A] @ ''    at y (/p/node.js)''
                @ [CHR 0x0A] @ ''    at k (/k.js:1:1)'')
   \<and> fst (filterStack example_host
          (StackText (''    at x (/p/node.js)'' @ [CHR 0x0A] @ ''    at y (/p/node.js)''
                      @ [CHR 0x0A] @ ''    at k (/k.js:1:1)''))
          exclude_node Map.empty)
   = StackText (''    at x (/p/node.js)'' @ [CHR 0x0A] @ ''    ... skipping 1 frame ...''
                @ [CHR 0x0A] @ ''    at k (/k.js:1:1)'')"
  by (simp add: regex_eval frame_eval filter_eval)

text \<open>
  Claim C9, amended.  \<^verbatim>\<open>filterStack\<close> is idempotent on every stack text whose lines are
  stable under the options: for every host, every set of options and every such text,
  filtering the filtered text with the same options yields the filtered text.  A line is
  stable when it is not a frame, or when its reformatted text parses to a frame with the
  same reformatted text and the same verdict of the categories and the caller's predicate.
\<close>

theorem filterStack_idempotent_when_stable:
  assumes "\<forall>l \<in> set (split_lines trace). stable_line h opts l"
  shows "fst (filterStack h (fst (filterStack h (StackText trace) opts objects)) opts objects')
         = fst (filterStack h (StackText trace) opts objects)"
proof (cases "trace = []")
  case True
  then show ?thesis
    by (simp add: filterStack_def truthy_def)
next
  case False
  let ?F = "filter_lines h opts (split_lines trace)"
  have first: "fst (filterStack h (StackText trace) opts objects) = StackText (join_lines ?F)"
    using False by (simp add: filterStack_def truthy_def toString_opt_def)
  show ?thesis
  proof (cases "join_lines ?F = []")
    case True
    then show ?thesis
      by (simp add: first) (simp add: filterStack_def truthy_def)
  next
    case nonempty: False
    then have "?F \<noteq> []" by auto
    moreover have "\<forall>x \<in> set ?F. no_breaks x"
      using assms split_lines_no_breaks [of trace] by (intro filter_lines_no_breaks) simp
    ultimately have "split_lines (join_lines ?F) = ?F"
      by (rule split_join_lines)
    moreover have "filter_lines h opts ?F = ?F"
      using assms by (rule filter_lines_idempotent)
    ultimately show ?thesis
      using nonempty by (simp add: first) (simp add: filterStack_def truthy_def toString_opt_def)
  qed
qed

theorem filterStack_idempotent_when_stable_witness:
  "list_all (stable_line example_host exclude_node)
     (split_lines (''Error: boom'' @ [CHR 0x0A] @ ''    at a (/x/node.js:1:1)'' @ [CHR 0x0A]
                   @ ''    at b (/x/node.js:2:1)'' @ [CHR 0x0A] @ ''    at main (/app/main.js:4:1)''))
   \<and> fst (filterStack example_host
          (fst (filterStack example_host
                  (StackText (''Error: boom'' @ [CHR 0x0A] @ ''    at a (/x/node.js:1:1)''
                              @ [CHR 0x0A] @ ''    at b (/x/node.js:2:1)'' @ [CHR 0x0A]
                              @ ''    at main (/app/main.js:4:1)''))
                  exclude_node Map.empty))
          exclude_node Map.empty)
     = StackText (''Error: boom'' @ [CHR 0x0A] @ ''    at a (/x/node.js:1:1)'' @ [CHR 0x0A]
                  @ ''    ... skipping 1 frame ...'' @ [CHR 0x0A] @ ''    at main (/app/main.js:4:1)'')"
proof -
  have stable:
    "list_all (stable_line example_host exclude_node)
       (split_lines (''Error: boom'' @ [CHR 0x0A] @ ''    at a (/x/node.js:1:1)'' @ [CHR 0x0A]
                     @ ''    at b (/x/node.js:2:1)'' @ [CHR 0x0A] @ ''    at main (/app/main.js:4:1)''))"
    by (simp add: stable_line_def regex_eval frame_eval filter_eval)
  have first:
    "fst (filterStack example_host
            (StackText (''Error: boom'' @ [CHR 0x0A] @ ''    at a (/x/node.js:1:1)''
                        @ [CHR 0x0A] @ ''    at b (/x/node.js:2:1)'' @ [CHR 0x0A]
                        @ ''    at main (/app/main.js:4:1)''))
            exclude_node Map.empty)
     = StackText (''Error: boom'' @ [CHR 0x0A] @ ''    at a (/x/node.js:1:1)'' @ [CHR 0x0A]
                  @ ''    ... skipping 1 frame ...'' @ [CHR 0x0A] @ ''    at main (/app/main.js:4:1)'')"
    by (simp add: regex_eval frame_eval filter_eval)
  from stable have "\<forall>l \<in> set (split_lines (''Error: boom'' @ [CHR 0x0A] @ ''    at a (/x/node.js:1:1)''
                        @ [CHR 0x0A] @ ''    at b (/x/node.js:2:1)'' @ [CHR 0x0A]
                        @ ''    at main (/app/main.js:4:1)'')). stable_line example_host exclude_node l"
    by (simp only: list_all_iff)
  from filterStack_idempotent_when_stable [OF this, of Map.empty Map.empty] stable first
  show ?thesis by simp
qed

subsection \<open>Error objects\<close>

text \<open>
  Claim C10.  Given a reference to an error object, \<^verbatim>\<open>filterStack\<close> returns the same
  reference.  No other object of the store changes; the object itself changes in its
  \<^verbatim>\<open>stack\<close> at most, its other properties are what they were; and when its \<^verbatim>\<open>stack\<close> is
  undefined or empty the store is unchanged.
\<close>

theorem filterStack_error_object:
  "fst (filterStack h (ErrorObject a) opts objects) = ErrorObject a
   \<and> (\<forall>b. b \<noteq> a \<longrightarrow> snd (filterStack h (ErrorObject a) opts objects) b = objects b)
   \<and> map_option properties (snd (filterStack h (ErrorObject a) opts objects) a)
       = map_option properties (objects a)
   \<and> (\<exists>s. snd (filterStack h (ErrorObject a) opts objects) a
            = map_option (\<lambda>e. e\<lparr>stack := s\<rparr>) (objects a))
   \<and> (\<not> truthy (Option.bind (objects a) stack) \<longrightarrow>
        snd (filterStack h (ErrorObject a) opts objects) = objects)"
proof (cases "objects a")
  case None
  then show ?thesis
    by (simp add: filterStack_def truthy_def)
next
  case (Some e)
  show ?thesis
  proof (cases "truthy (stack e)")
    case True
    with Some show ?thesis
      by (auto simp: filterStack_def Let_def)
  next
    case False
    have "e = e\<lparr>stack := stack e\<rparr>"
      by simp
    then have "\<exists>s. e = e\<lparr>stack := s\<rparr>" ..
    with False Some show ?thesis
      by (simp add: filterStack_def)
  qed
qed

theorem filterStack_error_object_witness:
  "fst (filterStack example_host (ErrorObject 0) exclude_node
          [0 \<mapsto> \<lparr>stack = Some (''Error: boom'' @ [CHR 0x0A] @ ''    at a (/x/node.js:010:1)''),
                 properties = [''message'' \<mapsto> JSString ''boom'']\<rparr>,
           1 \<mapsto> \<lparr>stack = None, properties = Map.empty\<rparr>])
   = ErrorObject 0
   \<and> snd (filterStack example_host (ErrorObject 0) exclude_node
          [0 \<mapsto> \<lparr>stack = Some (''Error: boom'' @ [CHR 0x0A] @ ''    at a (/x/node.js:010:1)''),
                 properties = [''message'' \<mapsto> JSString ''boom'']\<rparr>,
           1 \<mapsto> \<lparr>stack = None, properties = Map.empty\<rparr>]) 1
   = Some \<lparr>stack = None, properties = Map.empty\<rparr>
   \<and> map_option properties
       (snd (filterStack example_host (ErrorObject 0) exclude_node
          [0 \<mapsto> \<lparr>stack = Some (''Error: boom'' @ [CHR 0x0A] @ ''    at a (/x/node.js:010:1)''),
                 properties = [''message'' \<mapsto> JSString ''boom'']\<rparr>,
           1 \<mapsto> \<lparr>stack = None, properties = Map.empty\<rparr>]) 0)
   = Some [''message'' \<mapsto> JSString ''boom'']
   \<and> snd (filterStack example_host (ErrorObject 1) exclude_node
          [0 \<mapsto> \<lparr>stack = Some (''Error: boom'' @ [CHR 0x0A] @ ''    at a (/x/node.js:010:1)''),
                 properties = [''message'' \<mapsto> JSString ''boom'']\<rparr>,
           1 \<mapsto> \<lparr>stack = None, properties = Map.empty\<rparr>])
   = [0 \<mapsto> \<lparr>stack = Some (''Error: boom'' @ [CHR 0x0A] @ ''    at a (/x/node.js:010:1)''),
                 properties = [''message'' \<mapsto> JSString ''boom'']\<rparr>,
           1 \<mapsto> \<lparr>stack = None, properties = Map.empty\<rparr>]"
  using filterStack_error_object [of example_host 0 exclude_node
      "[0 \<mapsto> \<lparr>stack = Some (''Error: boom'' @ [CHR 0x0A] @ ''    at a (/x/node.js:010:1)''),
                 properties = [''message'' \<mapsto> JSString ''boom'']\<rparr>,
           1 \<mapsto> \<lparr>stack = None, properties = Map.empty\<rparr>]"]
    filterStack_error_object [of example_host 1 exclude_node
      "[0 \<mapsto> \<lparr>stack = Some (''Error: boom'' @ [CHR 0x0A] @ ''    at a (/x/node.js:010:1)''),
                 properties = [''message'' \<mapsto> JSString ''boom'']\<rparr>,
           1 \<mapsto> \<lparr>stack = None, properties = Map.empty\<rparr>]"]
  by (simp add: truthy_def)

end
